theory Spec2Isabelle
  imports Main "HOL-Library.AList"
begin

text \<open>
  A model of the signalling broker peersignal-server: the code normaliser of
  \<^verbatim>\<open>server/codes.js\<close>, the fixed-window rate limiter of \<^verbatim>\<open>server/rate-limit.js\<close>, the room
  registry \<^verbatim>\<open>server/rooms.js\<close> and the disconnect hook of \<^verbatim>\<open>server/index.js\<close>, followed by
  the properties the specification claims of them. The definitions come first, the
  proofs after them.
\<close>

section \<open>Code Mint (src/server/codes.js)\<close>

text \<open>
  JavaScript strings are sequences of UTF-16 code units. The model covers the code units
  U+0000 to U+00FF: a \<^typ>\<open>char\<close> is read as the Latin-1 character with that number.
  On this range \<^verbatim>\<open>toLowerCase\<close> maps A-Z and the accented capitals U+00C0 to U+00DE
  (without the multiplication sign U+00D7) to the character 32 places later, and the
  regular expression class \<^verbatim>\<open>\s\<close>, like \<^verbatim>\<open>trim\<close>, knows tab, line feed, vertical tab,
  form feed, carriage return, space and the no-break space U+00A0.
\<close>

definition toLowerCase_char :: "char \<Rightarrow> char" where
  "toLowerCase_char c =
     (let n = (of_char c :: nat)
      in if (65 \<le> n \<and> n \<le> 90) \<or> (192 \<le> n \<and> n \<le> 222 \<and> n \<noteq> 215)
         then char_of (n + 32) else c)"

definition toLowerCase :: "string \<Rightarrow> string" where
  "toLowerCase s = map toLowerCase_char s"

definition is_space :: "char \<Rightarrow> bool" where
  "is_space c = ((of_char c :: nat) \<in> {9, 10, 11, 12, 13, 32, 160})"

text \<open>\<^verbatim>\<open>.replace(/[0o]/g, 'o')\<close> and \<^verbatim>\<open>.replace(/[1il]/g, 'l')\<close>: every match is one
  character, replaced where it stands.\<close>

definition replace_0o :: "string \<Rightarrow> string" where
  "replace_0o s = map (\<lambda>c. if c = CHR ''0'' \<or> c = CHR ''o'' then CHR ''o'' else c) s"

definition replace_1il :: "string \<Rightarrow> string" where
  "replace_1il s =
     map (\<lambda>c. if c = CHR ''1'' \<or> c = CHR ''i'' \<or> c = CHR ''l'' then CHR ''l'' else c) s"

text \<open>\<^verbatim>\<open>.replace(/\s+/g, '-')\<close>: scanning from the left, a match starts at the first
  whitespace character and is greedy, so it takes the whole run; one hyphen replaces it.\<close>

function replace_spaces :: "string \<Rightarrow> string" where
  "replace_spaces [] = []"
| "replace_spaces (c # cs) =
     (if is_space c then CHR ''-'' # replace_spaces (dropWhile is_space cs)
      else c # replace_spaces cs)"
  by pat_completeness auto
termination
  by (relation "measure length") (auto simp: length_dropWhile_le less_Suc_eq_le)

definition trim :: "string \<Rightarrow> string" where
  "trim s = rev (dropWhile is_space (rev (dropWhile is_space s)))"

definition normalizeCode :: "string \<Rightarrow> string" where
  "normalizeCode code = trim (replace_spaces (replace_1il (replace_0o (toLowerCase code))))"

subsection \<open>The normalisation in the words of the specification\<close>

text \<open>The specification's \<open>normalize\<close>: lowercase; collapse runs of ASCII whitespace to a
  single hyphen; trim leading and trailing hyphens and whitespace; no substitution.\<close>

definition ascii_whitespace :: "char \<Rightarrow> bool" where
  "ascii_whitespace c = (c \<in> {CHR 0x09, CHR 0x0A, CHR 0x0B, CHR 0x0C, CHR 0x0D, CHR '' ''})"

fun collapse_runs :: "(char \<Rightarrow> bool) \<Rightarrow> string \<Rightarrow> string" where
  "collapse_runs P [] = []"
| "collapse_runs P [c] = (if P c then [CHR ''-''] else [c])"
| "collapse_runs P (c # d # cs) =
     (if P c then (if P d then collapse_runs P (d # cs) else CHR ''-'' # collapse_runs P (d # cs))
      else c # collapse_runs P (d # cs))"

definition hyphen_or_space :: "char \<Rightarrow> bool" where
  "hyphen_or_space c = (c = CHR ''-'' \<or> is_space c)"

definition trim_hyphens :: "string \<Rightarrow> string" where
  "trim_hyphens s = rev (dropWhile hyphen_or_space (rev (dropWhile hyphen_or_space s)))"

definition spec_normalize :: "string \<Rightarrow> string" where
  "spec_normalize s = trim_hyphens (collapse_runs ascii_whitespace (toLowerCase s))"

text \<open>The two substitutions of the source as one function on characters.\<close>

definition substitute_char :: "char \<Rightarrow> char" where
  "substitute_char c =
     (if c = CHR ''0'' then CHR ''o''
      else if c = CHR ''1'' \<or> c = CHR ''i'' then CHR ''l'' else c)"

text \<open>
  What the first three steps of \<open>normalizeCode\<close> do to one character.
\<close>

definition code_char :: "char \<Rightarrow> char" where
  "code_char c = substitute_char (toLowerCase_char c)"

section \<open>Rate Limiter (src/server/rate-limit.js)\<close>

text \<open>
  \<^verbatim>\<open>this.requests = new Map(); // key -> { count, resetTime }\<close>. Times are the integer
  milliseconds of \<^verbatim>\<open>Date.now()\<close>. The constructor reads \<^verbatim>\<open>options.windowMs || DEFAULT\<close>:
  a missing or zero option gives the default.
\<close>

record bucket =
  count :: int
  resetTime :: int

record RateLimiter =
  windowMs :: int
  maxRequests :: int
  requests :: "string \<rightharpoonup> bucket"

definition DEFAULT_WINDOW_MS :: int where "DEFAULT_WINDOW_MS = 60 * 1000"
definition DEFAULT_MAX_REQUESTS :: int where "DEFAULT_MAX_REQUESTS = 100"

definition or_default :: "int option \<Rightarrow> int \<Rightarrow> int" where
  "or_default v d = (case v of None \<Rightarrow> d | Some x \<Rightarrow> if x = 0 then d else x)"

definition new_RateLimiter :: "int option \<Rightarrow> int option \<Rightarrow> RateLimiter" where
  "new_RateLimiter optWindowMs optMaxRequests =
     \<lparr>windowMs = or_default optWindowMs DEFAULT_WINDOW_MS,
      maxRequests = or_default optMaxRequests DEFAULT_MAX_REQUESTS,
      requests = Map.empty\<rparr>"

text \<open>
  \<^verbatim>\<open>isAllowed(key)\<close>, with the value of \<^verbatim>\<open>Date.now()\<close> as the argument \<open>now\<close>: a missing or
  expired bucket (\<^verbatim>\<open>now > record.resetTime\<close>) is replaced by a fresh one with count 1 and
  the call is allowed; a full bucket refuses; otherwise the count goes up by one.
\<close>

definition isAllowed :: "int \<Rightarrow> string \<Rightarrow> RateLimiter \<Rightarrow> bool \<times> RateLimiter" where
  "isAllowed now key rl =
     (let fresh = (True, rl\<lparr>requests := (requests rl)(key \<mapsto>
                      \<lparr>count = 1, resetTime = now + windowMs rl\<rparr>)\<rparr>)
      in case requests rl key of
           None \<Rightarrow> fresh
         | Some record \<Rightarrow>
             if now > resetTime record then fresh
             else if count record \<ge> maxRequests rl then (False, rl)
             else (True, rl\<lparr>requests := (requests rl)(key \<mapsto>
                      record\<lparr>count := count record + 1\<rparr>)\<rparr>))"

text \<open>
  A run of calls, each with its time and key, on one limiter: the list of outcomes, and
  the number of allowed calls for \<open>key\<close> whose time lies in the window from \<open>a\<close> to
  \<open>a + windowMs\<close> (both ends included, so every half-open window of that width is covered).
\<close>

fun run_calls :: "RateLimiter \<Rightarrow> (int \<times> string) list \<Rightarrow> bool list" where
  "run_calls rl [] = []"
| "run_calls rl ((now, key) # calls) =
     (let (ok, rl') = isAllowed now key rl in ok # run_calls rl' calls)"

definition allowed_in_window :: "RateLimiter \<Rightarrow> (int \<times> string) list \<Rightarrow> string \<Rightarrow> int \<Rightarrow> nat" where
  "allowed_in_window rl calls key a =
     length (filter (\<lambda>((now, k), ok). ok \<and> k = key \<and> a \<le> now \<and> now \<le> a + windowMs rl)
               (zip calls (run_calls rl calls)))"

text \<open>
  The number of calls the limiter can still allow inside the window from \<open>a\<close> to \<open>a + W\<close>,
  given the bucket \<open>st\<close> of the key and that no later call comes before the time \<open>lo\<close>:
  the measure of the proof of the sliding-window bound.
\<close>

definition window_budget :: "int \<Rightarrow> int \<Rightarrow> int \<Rightarrow> int \<Rightarrow> bucket option \<Rightarrow> int" where
  "window_budget M W a lo st =
     (if lo > a + W then 0
      else case st of
             None \<Rightarrow> 2 * M - 1
           | Some b \<Rightarrow>
               if resetTime b < a then 2 * M - 1
               else if resetTime b \<ge> a + W then max 0 (M - count b)
               else max 0 (M - count b) + M)"

text \<open>
  Four calls from one address around the end of the first bucket.
\<close>

definition burst :: "(int \<times> string) list" where
  "burst = [(0, ''ip''), (9, ''ip''), (11, ''ip''), (12, ''ip'')]"

section \<open>Room Registry (rooms.js) and the disconnect hook of the Session Coordinator\<close>

text \<open>
  A socket is the handle of the transport layer: its \<^verbatim>\<open>id\<close> and the \<^verbatim>\<open>clientIp\<close> the
  connection middleware stored on it. The flag \<^verbatim>\<open>socket.connected\<close> belongs to the
  transport and changes under the registry's feet, so it lives in the state (field
  \<open>connected\<close>, by connection id). What the registry does to the outside world, that is
  \<^verbatim>\<open>socket.emit\<close>, \<^verbatim>\<open>socket.join\<close> and \<^verbatim>\<open>socket.leave\<close>, is appended to the field \<open>trace\<close>
  in the order of the calls. The payload of a signal is opaque to the registry.
\<close>

type_synonym conn_id = string
type_synonym code = string
type_synonym ip = string
type_synonym payload = string

record socket =
  socket_id :: conn_id
  clientIp :: ip

datatype event =
    PeerRequest conn_id string
  | PeerApproved conn_id
  | PeerDenied
  | HostDisconnected
  | PeerDisconnected conn_id
  | HostReconnected conn_id
  | SignalEvent conn_id payload

datatype effect =
    Emit socket event
  | Join socket code
  | Leave socket code

text \<open>
  The room of the source's header comment. \<^verbatim>\<open>pendingPeers\<close> and \<^verbatim>\<open>approvedPeers\<close> are
  JavaScript Maps, which iterate in insertion order: they are association lists, with
  \<open>AList.update\<close> for \<^verbatim>\<open>set\<close> (an existing key keeps its place, a new one goes to the end),
  \<open>AList.delete\<close> for \<^verbatim>\<open>delete\<close> and \<open>map_of\<close> for \<^verbatim>\<open>get\<close>. The module-level Maps
  \<^verbatim>\<open>rooms\<close> and \<^verbatim>\<open>socketToRoom\<close> are never iterated: they are partial functions.
\<close>

record peer =
  psocket :: socket
  pname :: string

record room =
  code :: code
  hostSocket :: socket
  hostId :: conn_id
  pendingPeers :: "(conn_id \<times> peer) list"
  approvedPeers :: "(conn_id \<times> peer) list"
  createdAt :: int

record roomInfo =
  info_code :: code
  isHost :: bool
  peerId :: "conn_id option"

record registry =
  rooms :: "code \<rightharpoonup> room"
  socketToRoom :: "conn_id \<rightharpoonup> roomInfo"
  connected :: "conn_id \<Rightarrow> bool"
  trace :: "effect list"

text \<open>
  The objects the operations return: \<^verbatim>\<open>{ error }\<close>, \<^verbatim>\<open>{ code }\<close>,
  \<^verbatim>\<open>{ success, peerId, hostConnected }\<close>, \<^verbatim>\<open>{ success }\<close>, \<^verbatim>\<open>{ success, denied }\<close> and
  \<^verbatim>\<open>{ success, code, peers }\<close>.
\<close>

datatype reply =
    Error string
  | Created code
  | Joined conn_id bool
  | Success
  | SuccessDenied
  | Rejoined code "(conn_id \<times> string) list"

definition emit :: "socket \<Rightarrow> event \<Rightarrow> registry \<Rightarrow> registry" where
  "emit sock ev s = s\<lparr>trace := trace s @ [Emit sock ev]\<rparr>"

text \<open>
  \<^verbatim>\<open>do { code = generateCode(); } while (rooms.has(code));\<close> The random generator is the
  list \<open>draws\<close> of the codes it returns, one per call. The loop takes the first one that is
  not in use; a supply with no free code is a loop that has not ended (\<open>None\<close>).
\<close>

fun draw_code :: "(code \<rightharpoonup> room) \<Rightarrow> code list \<Rightarrow> code option" where
  "draw_code rs [] = None"
| "draw_code rs (c # draws) = (if rs c \<noteq> None then draw_code rs draws else Some c)"

definition createRoom :: "socket \<Rightarrow> int \<Rightarrow> code list \<Rightarrow> registry \<Rightarrow> (reply \<times> registry) option" where
  "createRoom socket now draws s =
     (case draw_code (rooms s) draws of
        None \<Rightarrow> None
      | Some c \<Rightarrow>
          let room = \<lparr>code = c, hostSocket = socket, hostId = socket_id socket,
                      pendingPeers = [], approvedPeers = [], createdAt = now\<rparr>
          in Some (Created c,
               s\<lparr>rooms := (rooms s)(c \<mapsto> room),
                 socketToRoom := (socketToRoom s)(socket_id socket \<mapsto>
                    \<lparr>info_code = c, isHost = True, peerId = None\<rparr>),
                 trace := trace s @ [Join socket c]\<rparr>))"

text \<open>
  \<^verbatim>\<open>joinRoom(socket, code, name)\<close>: no check that the socket is already in a room.
\<close>

definition joinRoom :: "socket \<Rightarrow> code \<Rightarrow> string \<Rightarrow> registry \<Rightarrow> reply \<times> registry" where
  "joinRoom socket c name s =
     (case rooms s c of
        None \<Rightarrow> (Error ''Room not found'', s)
      | Some room \<Rightarrow>
          let pid = socket_id socket;
              room' = room\<lparr>pendingPeers :=
                        AList.update pid \<lparr>psocket = socket, pname = name\<rparr> (pendingPeers room)\<rparr>
          in (Joined pid (connected s (socket_id (hostSocket room))),
              s\<lparr>rooms := (rooms s)(c \<mapsto> room'),
                socketToRoom := (socketToRoom s)(socket_id socket \<mapsto>
                   \<lparr>info_code = c, isHost = False, peerId = Some pid\<rparr>),
                trace := trace s @ [Join socket c, Emit (hostSocket room) (PeerRequest pid name)]\<rparr>))"

definition approvePeer :: "socket \<Rightarrow> conn_id \<Rightarrow> bool \<Rightarrow> registry \<Rightarrow> reply \<times> registry" where
  "approvePeer hostSock pid approved s =
     (case socketToRoom s (socket_id hostSock) of
        None \<Rightarrow> (Error ''Not a host'', s)
      | Some info \<Rightarrow>
          if \<not> isHost info then (Error ''Not a host'', s)
          else
            (case rooms s (info_code info) of
               None \<Rightarrow> (Error ''Room not found'', s)
             | Some room \<Rightarrow>
                 (case map_of (pendingPeers room) pid of
                    None \<Rightarrow> (Error ''Peer not found in pending'', s)
                  | Some pending \<Rightarrow>
                      let room1 = room\<lparr>pendingPeers := AList.delete pid (pendingPeers room)\<rparr>
                      in if approved
                         then (Success,
                           s\<lparr>rooms := (rooms s)(info_code info \<mapsto>
                                room1\<lparr>approvedPeers := AList.update pid pending (approvedPeers room1)\<rparr>),
                             trace := trace s @ [Emit (psocket pending) (PeerApproved (hostId room))]\<rparr>)
                         else (SuccessDenied,
                           s\<lparr>rooms := (rooms s)(info_code info \<mapsto> room1),
                             socketToRoom := (socketToRoom s)(socket_id (psocket pending) := None),
                             trace := trace s @ [Emit (psocket pending) PeerDenied,
                                                 Leave (psocket pending) (info_code info)]\<rparr>))))"

definition signal :: "socket \<Rightarrow> conn_id \<Rightarrow> payload \<Rightarrow> registry \<Rightarrow> reply \<times> registry" where
  "signal fromSocket toId pl s =
     (case socketToRoom s (socket_id fromSocket) of
        None \<Rightarrow> (Error ''Not in a room'', s)
      | Some info \<Rightarrow>
          (case rooms s (info_code info) of
             None \<Rightarrow> (Error ''Room not found'', s)
           | Some room \<Rightarrow>
               let fromHost = (hostId room = socket_id fromSocket);
                   fromApproved = (map_of (approvedPeers room) (socket_id fromSocket) \<noteq> None)
               in if \<not> fromHost \<and> \<not> fromApproved then (Error ''Not authorized to signal'', s)
                  else
                    let targetSocket =
                          (if toId = hostId room then Some (hostSocket room)
                           else case map_of (approvedPeers room) toId of
                                  None \<Rightarrow> None
                                | Some p \<Rightarrow> Some (psocket p))
                    in (case targetSocket of
                          None \<Rightarrow> (Error ''Target not found'', s)
                        | Some target \<Rightarrow>
                            (Success, emit target (SignalEvent (socket_id fromSocket) pl) s))))"

text \<open>
  The two loops of the host branch of \<^verbatim>\<open>handleDisconnect\<close>, each over one Map of the
  room: emit \<^verbatim>\<open>host:disconnected\<close> to the peer and delete its index entry.
\<close>

fun notify_host_disconnected :: "(conn_id \<times> peer) list \<Rightarrow> registry \<Rightarrow> registry" where
  "notify_host_disconnected [] s = s"
| "notify_host_disconnected ((pid, p) # ps) s =
     notify_host_disconnected ps
       ((emit (psocket p) HostDisconnected s)\<lparr>socketToRoom := (socketToRoom s)(pid := None)\<rparr>)"

text \<open>
  \<^verbatim>\<open>handleDisconnect(socket)\<close>. Both early returns leave the state as it is; the second one
  (the index entry names a room that no longer exists) also leaves the index entry.
\<close>

definition handleDisconnect :: "socket \<Rightarrow> registry \<Rightarrow> registry" where
  "handleDisconnect socket s =
     (case socketToRoom s (socket_id socket) of
        None \<Rightarrow> s
      | Some info \<Rightarrow>
          (case rooms s (info_code info) of
             None \<Rightarrow> s
           | Some room \<Rightarrow>
               let s1 =
                 (if isHost info
                  then (let s2 = notify_host_disconnected (approvedPeers room) s;
                            s3 = notify_host_disconnected (pendingPeers room) s2
                        in s3\<lparr>rooms := (rooms s3)(info_code info := None)\<rparr>)
                  else (let room' = room\<lparr>pendingPeers := AList.delete (socket_id socket) (pendingPeers room)\<rparr>;
                            room'' = room'\<lparr>approvedPeers := AList.delete (socket_id socket) (approvedPeers room')\<rparr>
                        in emit (hostSocket room'') (PeerDisconnected (socket_id socket))
                             (s\<lparr>rooms := (rooms s)(info_code info \<mapsto> room'')\<rparr>)))
               in s1\<lparr>socketToRoom := (socketToRoom s1)(socket_id socket := None)\<rparr>))"

text \<open>
  The loop of \<^verbatim>\<open>rejoinRoom\<close> over the approved peers.
\<close>

fun notify_host_reconnected :: "conn_id \<Rightarrow> (conn_id \<times> peer) list \<Rightarrow> registry \<Rightarrow> registry" where
  "notify_host_reconnected hid [] s = s"
| "notify_host_reconnected hid ((pid, p) # ps) s =
     notify_host_reconnected hid ps (emit (psocket p) (HostReconnected hid) s)"

definition rejoinRoom :: "socket \<Rightarrow> code \<Rightarrow> bool \<Rightarrow> string \<Rightarrow> registry \<Rightarrow> reply \<times> registry" where
  "rejoinRoom socket c asHost name s =
     (case rooms s c of
        None \<Rightarrow> (Error ''Room not found'', s)
      | Some room \<Rightarrow>
          if asHost
          then (let room' = room\<lparr>hostSocket := socket, hostId := socket_id socket\<rparr>;
                    s1 = s\<lparr>rooms := (rooms s)(c \<mapsto> room'),
                           socketToRoom := (socketToRoom s)(socket_id socket \<mapsto>
                              \<lparr>info_code = c, isHost = True, peerId = None\<rparr>),
                           trace := trace s @ [Join socket c]\<rparr>;
                    s2 = notify_host_reconnected (socket_id socket) (approvedPeers room') s1
                in (Rejoined c (map (\<lambda>(pid, p). (pid, pname p)) (approvedPeers room')), s2))
          else joinRoom socket c name s)"

text \<open>
  The disconnect hook of index.js: it lowers the room count of the socket's address when
  the index entry of the socket says host (\<^verbatim>\<open>roomsPerIp.get(ip) || 1\<close>: a missing or zero
  count reads as 1), then calls \<^verbatim>\<open>rooms.handleDisconnect\<close>.
\<close>

definition getRoomBySocket :: "socket \<Rightarrow> registry \<Rightarrow> (room option \<times> roomInfo) option" where
  "getRoomBySocket socket s =
     (case socketToRoom s (socket_id socket) of
        None \<Rightarrow> None
      | Some info \<Rightarrow> Some (rooms s (info_code info), info))"

record server =
  registry :: registry
  roomsPerIp :: "ip \<rightharpoonup> int"

definition on_disconnect :: "socket \<Rightarrow> server \<Rightarrow> server" where
  "on_disconnect socket srv =
     (let ip = clientIp socket;
          hosting = (case getRoomBySocket socket (registry srv) of
                       None \<Rightarrow> False
                     | Some (_, info) \<Rightarrow> isHost info);
          perIp =
            (if hosting
             then (let count = (case roomsPerIp srv ip of
                                  None \<Rightarrow> 1
                                | Some n \<Rightarrow> if n = 0 then 1 else n)
                   in if count \<le> 1 then (roomsPerIp srv)(ip := None)
                      else (roomsPerIp srv)(ip \<mapsto> count - 1))
             else roomsPerIp srv)
      in \<lparr>registry = handleDisconnect socket (registry srv), roomsPerIp = perIp\<rparr>)"

text \<open>
  The operations as data, to speak about the states the registry can reach from the
  empty one. \<open>Transport\<close> is the transport layer changing the \<^verbatim>\<open>connected\<close> flag of a
  connection.
\<close>

datatype op =
    CreateRoom socket int "code list"
  | JoinRoom socket code string
  | ApprovePeer socket conn_id bool
  | Signal socket conn_id payload
  | RejoinRoom socket code bool string
  | HandleDisconnect socket
  | Transport conn_id bool

fun exec :: "op \<Rightarrow> registry \<Rightarrow> registry option" where
  "exec (CreateRoom socket now draws) s = map_option snd (createRoom socket now draws s)"
| "exec (JoinRoom socket c name) s = Some (snd (joinRoom socket c name s))"
| "exec (ApprovePeer socket pid approved) s = Some (snd (approvePeer socket pid approved s))"
| "exec (Signal socket toId pl) s = Some (snd (signal socket toId pl s))"
| "exec (RejoinRoom socket c asHost name) s = Some (snd (rejoinRoom socket c asHost name s))"
| "exec (HandleDisconnect socket) s = Some (handleDisconnect socket s)"
| "exec (Transport cid live) s = Some (s\<lparr>connected := (connected s)(cid := live)\<rparr>)"

fun run_ops :: "op list \<Rightarrow> registry \<Rightarrow> registry option" where
  "run_ops [] s = Some s"
| "run_ops (op # ops) s = (case exec op s of None \<Rightarrow> None | Some s' \<Rightarrow> run_ops ops s')"

definition init_registry :: registry where
  "init_registry = \<lparr>rooms = Map.empty, socketToRoom = Map.empty, connected = (\<lambda>_. True), trace = []\<rparr>"

text \<open>
  The keys of one of the room's Maps. A Map holds a key once, and \<^verbatim>\<open>joinRoom\<close>, the only
  place that creates an entry, stores a socket under its own id: \<open>entries_wf\<close>.
\<close>

definition entry_keys :: "(conn_id \<times> peer) list \<Rightarrow> conn_id set" where
  "entry_keys al = fst ` set al"

definition entries_wf :: "(conn_id \<times> peer) list \<Rightarrow> bool" where
  "entries_wf al = (distinct (map fst al) \<and> (\<forall>(pid, p) \<in> set al. socket_id (psocket p) = pid))"

definition room_wf :: "room \<Rightarrow> bool" where
  "room_wf room = (entries_wf (pendingPeers room) \<and> entries_wf (approvedPeers room))"

definition registry_wf :: "registry \<Rightarrow> bool" where
  "registry_wf s = (\<forall>c room. rooms s c = Some room \<longrightarrow> room_wf room)"

text \<open>
  Membership disjointness of one room: no key is both pending and approved, and the host
  id is in neither Map.
\<close>

definition room_disjoint :: "room \<Rightarrow> bool" where
  "room_disjoint room =
     ((\<forall>pid \<in> entry_keys (pendingPeers room). pid \<notin> entry_keys (approvedPeers room))
      \<and> hostId room \<notin> entry_keys (pendingPeers room)
      \<and> hostId room \<notin> entry_keys (approvedPeers room))"

text \<open>
  The calls that keep the memberships apart: nobody joins a room whose host or approved
  peer it is, and nobody takes over as host a room in which it is pending or approved.
  The source does not check either.
\<close>

fun admissible :: "op \<Rightarrow> registry \<Rightarrow> bool" where
  "admissible (JoinRoom socket c name) s =
     (case rooms s c of
        None \<Rightarrow> True
      | Some room \<Rightarrow> socket_id socket \<noteq> hostId room
                     \<and> socket_id socket \<notin> entry_keys (approvedPeers room))"
| "admissible (RejoinRoom socket c asHost name) s =
     (case rooms s c of
        None \<Rightarrow> True
      | Some room \<Rightarrow>
          if asHost
          then socket_id socket \<notin> entry_keys (pendingPeers room)
               \<and> socket_id socket \<notin> entry_keys (approvedPeers room)
          else socket_id socket \<noteq> hostId room
               \<and> socket_id socket \<notin> entry_keys (approvedPeers room))"
| "admissible _ s = True"

fun admissible_run :: "op list \<Rightarrow> registry \<Rightarrow> bool" where
  "admissible_run [] s = True"
| "admissible_run (op # ops) s =
     (admissible op s \<and> (case exec op s of None \<Rightarrow> True | Some s' \<Rightarrow> admissible_run ops s'))"

definition registry_disjoint :: "registry \<Rightarrow> bool" where
  "registry_disjoint s = (\<forall>c room. rooms s c = Some room \<longrightarrow> room_disjoint room)"

text \<open>
  The room a connection's index entry points to; the test \<^verbatim>\<open>signal\<close> applies both to
  its sender and to its target (the host id or a key of the approved Map); and the
  effects an operation has added to the trace.
\<close>

definition room_of :: "registry \<Rightarrow> conn_id \<Rightarrow> room option" where
  "room_of s cid =
     (case socketToRoom s cid of None \<Rightarrow> None | Some info \<Rightarrow> rooms s (info_code info))"

definition is_host_or_approved :: "room \<Rightarrow> conn_id \<Rightarrow> bool" where
  "is_host_or_approved room cid = (cid = hostId room \<or> cid \<in> entry_keys (approvedPeers room))"

definition new_effects :: "registry \<Rightarrow> registry \<Rightarrow> effect list" where
  "new_effects s s' = drop (length (trace s)) (trace s')"

text \<open>
  The emit a notification loop makes for one entry.
\<close>

definition notice :: "event \<Rightarrow> conn_id \<times> peer \<Rightarrow> effect" where
  "notice ev = (\<lambda>(pid, p). Emit (psocket p) ev)"

subsection \<open>Example connections and runs\<close>

text \<open>
  Concrete connections and runs for the examples.
\<close>

definition room_after :: "op list \<Rightarrow> code \<Rightarrow> room option" where
  "room_after ops c = (case run_ops ops init_registry of None \<Rightarrow> None | Some s \<Rightarrow> rooms s c)"

definition after :: "op list \<Rightarrow> registry" where
  "after ops = (case run_ops ops init_registry of None \<Rightarrow> init_registry | Some s \<Rightarrow> s)"

definition host1 :: socket where "host1 = \<lparr>socket_id = ''host-1'', clientIp = ''10.0.0.1''\<rparr>"

definition host2 :: socket where "host2 = \<lparr>socket_id = ''host-2'', clientIp = ''10.0.0.2''\<rparr>"

definition peer1 :: socket where "peer1 = \<lparr>socket_id = ''peer-1'', clientIp = ''10.0.0.3''\<rparr>"

definition peer2 :: socket where "peer2 = \<lparr>socket_id = ''peer-2'', clientIp = ''10.0.0.4''\<rparr>"

definition rejoining_members :: "op list" where
  "rejoining_members =
     [CreateRoom host1 0 [''abc-def-ghj''],
      JoinRoom peer1 ''abc-def-ghj'' ''Alice'',
      ApprovePeer host1 ''peer-1'' True,
      JoinRoom peer1 ''abc-def-ghj'' ''Alice'',
      JoinRoom host1 ''abc-def-ghj'' ''Host'']"

definition happy_path :: "op list" where
  "happy_path =
     [CreateRoom host1 0 [''abc-def-ghj''],
      JoinRoom peer1 ''abc-def-ghj'' ''Alice'',
      ApprovePeer host1 ''peer-1'' True,
      JoinRoom peer2 ''abc-def-ghj'' ''Bob'']"

definition pending_only :: "op list" where
  "pending_only =
     [CreateRoom host1 0 [''abc-def-ghj''],
      JoinRoom peer1 ''abc-def-ghj'' ''Alice'']"

definition alice_room :: room where
  "alice_room =
     \<lparr>code = ''abc-def-ghj'', hostSocket = host1, hostId = ''host-1'',
      pendingPeers = [(''peer-2'', \<lparr>psocket = peer2, pname = ''Bob''\<rparr>)],
      approvedPeers = [(''peer-1'', \<lparr>psocket = peer1, pname = ''Alice''\<rparr>)],
      createdAt = 0\<rparr>"

definition request_room :: room where
  "request_room =
     \<lparr>code = ''abc-def-ghj'', hostSocket = host1, hostId = ''host-1'',
      pendingPeers = [(''peer-1'', \<lparr>psocket = peer1, pname = ''Alice''\<rparr>)],
      approvedPeers = [],
      createdAt = 0\<rparr>"

definition double_join :: "op list" where
  "double_join =
     [CreateRoom host1 0 [''abc-def-ghj''],
      JoinRoom peer1 ''abc-def-ghj'' ''Alice'',
      ApprovePeer host1 ''peer-1'' True,
      JoinRoom peer1 ''abc-def-ghj'' ''Alice'']"

definition hosting :: "op list" where
  "hosting = [CreateRoom host1 0 [''abc-def-ghj'']]"

definition one_room_server :: "op list \<Rightarrow> server" where
  "one_room_server ops = \<lparr>registry = after ops, roomsPerIp = [''10.0.0.1'' \<mapsto> 1]\<rparr>"

section \<open>Properties of the Code Mint\<close>

lemma char_eq_nat: "(c = d) = ((of_char c :: nat) = of_char d)"
  by simp

lemma code_char_idem: "code_char (code_char c) = code_char c"
  unfolding code_char_def substitute_char_def toLowerCase_char_def Let_def
  by (auto simp: char_eq_nat[of _ "CHR ''0''"] char_eq_nat[of _ "CHR ''1''"] char_eq_nat[of _ "CHR ''i''"])

lemma code_char_space: "is_space (code_char c) = is_space c"
  unfolding code_char_def substitute_char_def toLowerCase_char_def Let_def is_space_def
  by (auto simp: char_eq_nat[of _ "CHR ''0''"] char_eq_nat[of _ "CHR ''1''"] char_eq_nat[of _ "CHR ''i''"])

lemma code_char_hyphen: "(code_char c = CHR ''-'') = (c = CHR ''-'')"
  unfolding code_char_def substitute_char_def toLowerCase_char_def Let_def is_space_def
  by (auto simp: char_eq_nat[of _ "CHR ''0''"] char_eq_nat[of _ "CHR ''1''"] char_eq_nat[of _ "CHR ''i''"] char_eq_nat[of _ "CHR ''-''"])

lemma code_char_never: "code_char c \<noteq> CHR ''0''" "code_char c \<noteq> CHR ''1''" "code_char c \<noteq> CHR ''i''"
  unfolding code_char_def substitute_char_def toLowerCase_char_def Let_def is_space_def
  by (auto simp: char_eq_nat[of _ "CHR ''0''"] char_eq_nat[of _ "CHR ''1''"] char_eq_nat[of _ "CHR ''i''"] char_eq_nat[of _ "CHR ''-''"])

lemma normalizeCode_chars:
  "replace_1il (replace_0o (toLowerCase s)) = map code_char s"
  by (auto simp: replace_1il_def replace_0o_def toLowerCase_def code_char_def substitute_char_def)

lemma replace_spaces_set:
  "set (replace_spaces s) \<subseteq> insert CHR ''-'' {c \<in> set s. \<not> is_space c}"
proof (induction s rule: replace_spaces.induct)
  case 1
  show ?case by simp
next
  case (2 c cs)
  have "set (dropWhile is_space cs) \<subseteq> set cs"
    by (rule set_dropWhileD[THEN subsetI]) 
  with 2 show ?case by (auto split: if_splits)
qed

lemma hyphen_no_space: "\<not> is_space CHR ''-''"
  by (simp add: is_space_def)

lemma replace_spaces_no_space: "c \<in> set (replace_spaces s) \<Longrightarrow> \<not> is_space c"
  using replace_spaces_set[of s] hyphen_no_space by auto

lemma replace_spaces_id: "\<forall>c \<in> set s. \<not> is_space c \<Longrightarrow> replace_spaces s = s"
  by (induction s) auto

lemma dropWhile_ends:
  "s = [] \<or> \<not> P (hd s) \<and> \<not> P (last s) \<Longrightarrow> rev (dropWhile P (rev (dropWhile P s))) = s"
proof (cases s)
  case Nil
  then show ?thesis by simp
next
  case (Cons a as)
  assume "s = [] \<or> \<not> P (hd s) \<and> \<not> P (last s)"
  with Cons have a: "\<not> P a" and l: "\<not> P (last s)" by simp_all
  from a Cons have "dropWhile P s = s" by simp
  moreover from Cons l have "dropWhile P (rev s) = rev s"
    by (cases "rev s") (auto simp: hd_rev[symmetric])
  ultimately show ?thesis by simp
qed

lemma trim_id: "\<forall>c \<in> set s. \<not> is_space c \<Longrightarrow> trim s = s"
  unfolding trim_def by (rule dropWhile_ends) (cases s, auto)

lemma replace_spaces_collapse: "replace_spaces s = collapse_runs is_space s"
proof (induction is_space s rule: collapse_runs.induct)
  case 1
  show ?case by simp
next
  case (2 c)
  show ?case by simp
next
  case (3 c d cs)
  then show ?case by auto
qed

lemma normalizeCode_eq: "normalizeCode s = replace_spaces (map code_char s)"
  unfolding normalizeCode_def normalizeCode_chars
  by (rule trim_id) (auto dest: replace_spaces_no_space)

lemma normalizeCode_settled:
  assumes "c \<in> set (normalizeCode s)"
  shows "code_char c = c \<and> \<not> is_space c"
proof -
  from assms have "c \<in> insert CHR ''-'' {c \<in> set (map code_char s). \<not> is_space c}"
    using replace_spaces_set[of "map code_char s"] by (auto simp: normalizeCode_eq)
  then show ?thesis
    using code_char_hyphen[of "CHR ''-''"] hyphen_no_space by (auto simp: code_char_idem)
qed

text \<open>
  Claim C9. \<open>normalizeCode\<close> is idempotent: normalising an already normalised string
  changes nothing. After one pass every character is a hyphen or a lower-cased,
  substituted character that is not whitespace, and none of the four steps touches those.
\<close>

theorem normalizeCode_idempotent: "normalizeCode (normalizeCode s) = normalizeCode s"
proof -
  have fixed: "map code_char (normalizeCode s) = normalizeCode s"
    by (rule map_idI) (simp add: normalizeCode_settled)
  have "normalizeCode (normalizeCode s) = replace_spaces (normalizeCode s)"
    by (simp add: normalizeCode_eq[of "normalizeCode s"] fixed)
  also have "\<dots> = normalizeCode s"
    by (rule replace_spaces_id) (simp add: normalizeCode_settled)
  finally show ?thesis .
qed

lemma collapse_runs_hd:
  "s \<noteq> [] \<Longrightarrow> \<not> P (hd s) \<Longrightarrow> collapse_runs P s \<noteq> [] \<and> hd (collapse_runs P s) = hd s"
  by (induction P s rule: collapse_runs.induct) auto

lemma collapse_runs_last:
  "s \<noteq> [] \<Longrightarrow> \<not> P (last s) \<Longrightarrow> collapse_runs P s \<noteq> [] \<and> last (collapse_runs P s) = last s"
  by (induction P s rule: collapse_runs.induct) auto

lemma trim_hyphens_id:
  "s = [] \<or> (\<not> hyphen_or_space (hd s) \<and> \<not> hyphen_or_space (last s)) \<Longrightarrow> trim_hyphens s = s"
  unfolding trim_hyphens_def by (rule dropWhile_ends)

lemma code_char_hyphen_or_space: "hyphen_or_space (code_char c) = hyphen_or_space c"
  by (simp add: hyphen_or_space_def code_char_hyphen code_char_space)

text \<open>
  Claim C5, as amended. For every string \<open>s\<close> that neither starts nor ends with
  whitespace or a hyphen, \<open>normalizeCode s\<close> is \<open>s\<close> lower-cased, then with \<open>0\<close> replaced
  by \<open>o\<close> and \<open>1\<close>, \<open>i\<close> replaced by \<open>l\<close>, then with every run of whitespace (the class
  \<^verbatim>\<open>\s\<close>) collapsed to one hyphen; trimming hyphens and whitespace changes nothing more.
  For every string at all, the result contains none of \<open>0\<close>, \<open>1\<close>, \<open>i\<close>: the source
  substitutes them.
\<close>

theorem normalizeCode_substitutes:
  "(s = [] \<or> (\<not> hyphen_or_space (hd s) \<and> \<not> hyphen_or_space (last s)) \<longrightarrow>
      normalizeCode s
        = trim_hyphens (collapse_runs is_space (map substitute_char (toLowerCase s))))
   \<and> CHR ''0'' \<notin> set (normalizeCode s) \<and> CHR ''1'' \<notin> set (normalizeCode s)
   \<and> CHR ''i'' \<notin> set (normalizeCode s)"
proof -
  let ?t = "map code_char s"
  have chars: "map substitute_char (toLowerCase s) = ?t"
    by (simp add: toLowerCase_def code_char_def)
  have eq: "normalizeCode s = collapse_runs is_space ?t"
    by (simp add: normalizeCode_eq replace_spaces_collapse)
  have trimmed: "trim_hyphens (collapse_runs is_space ?t) = collapse_runs is_space ?t"
    if "s = [] \<or> (\<not> hyphen_or_space (hd s) \<and> \<not> hyphen_or_space (last s))"
  proof (cases "s = []")
    case True
    then show ?thesis by (simp add: trim_hyphens_def)
  next
    case False
    with that have ends: "\<not> hyphen_or_space (hd ?t)" "\<not> hyphen_or_space (last ?t)"
      by (simp_all add: hd_map last_map code_char_hyphen_or_space)
    then have sp: "\<not> is_space (hd ?t)" "\<not> is_space (last ?t)"
      by (simp_all add: hyphen_or_space_def)
    from False have ne: "?t \<noteq> []" by simp
    show ?thesis
      using collapse_runs_hd[of ?t is_space] collapse_runs_last[of ?t is_space] ne sp ends
      by (intro trim_hyphens_id) simp
  qed
  have never: "c \<noteq> CHR ''0'' \<and> c \<noteq> CHR ''1'' \<and> c \<noteq> CHR ''i''"
    if "c \<in> set (normalizeCode s)" for c
    using normalizeCode_settled[OF that] code_char_never[of c] by simp
  from trimmed have "s = [] \<or> (\<not> hyphen_or_space (hd s) \<and> \<not> hyphen_or_space (last s)) \<longrightarrow>
      normalizeCode s
        = trim_hyphens (collapse_runs is_space (map substitute_char (toLowerCase s)))"
    by (simp add: chars eq)
  moreover from never have "CHR ''0'' \<notin> set (normalizeCode s)"
    "CHR ''1'' \<notin> set (normalizeCode s)" "CHR ''i'' \<notin> set (normalizeCode s)"
    by blast+
  ultimately show ?thesis by simp
qed

text \<open>The amended claim C5 at the input \<^verbatim>\<open>"Ab0 \n 1i-x"\<close>.\<close>

theorem normalizeCode_substitutes_witness:
  "normalizeCode ''Ab0 \<newline> 1i-x'' = ''abo-ll-x''"
proof -
  have ends: "\<not> hyphen_or_space (hd ''Ab0 \<newline> 1i-x'') \<and> \<not> hyphen_or_space (last ''Ab0 \<newline> 1i-x'')"
    by code_simp
  have val: "trim_hyphens (collapse_runs is_space (map substitute_char (toLowerCase ''Ab0 \<newline> 1i-x'')))
      = ''abo-ll-x''"
    by code_simp
  show ?thesis
    using normalizeCode_substitutes[of "''Ab0 \<newline> 1i-x''"] ends val by simp
qed

text \<open>
  Claim C5 as the specification words it fails: on \<^verbatim>\<open>"a0-1i"\<close> the specification's
  normalisation leaves the string alone, while the source returns \<^verbatim>\<open>"ao-ll"\<close>.
\<close>

theorem normalizeCode_substitutes_counterexample:
  "normalizeCode ''a0-1i'' = ''ao-ll'' \<and> spec_normalize ''a0-1i'' = ''a0-1i''"
  by code_simp

section \<open>Properties of the Rate Limiter\<close>

lemma isAllowed_frame:
  "windowMs (snd (isAllowed now key rl)) = windowMs rl"
  "maxRequests (snd (isAllowed now key rl)) = maxRequests rl"
  "key' \<noteq> key \<Longrightarrow> requests (snd (isAllowed now key rl)) key' = requests rl key'"
  by (auto simp: isAllowed_def Let_def split: option.splits)

lemma allowed_in_window_Cons:
  "allowed_in_window rl ((now, k) # calls) key a =
     (if fst (isAllowed now k rl) \<and> k = key \<and> a \<le> now \<and> now \<le> a + windowMs rl then 1 else 0)
     + allowed_in_window (snd (isAllowed now k rl)) calls key a"
  by (simp add: allowed_in_window_def isAllowed_frame split: prod.splits)

lemma window_budget_mono:
  "lo \<le> lo' \<Longrightarrow> 1 \<le> M \<Longrightarrow> (\<forall>b. st = Some b \<longrightarrow> 1 \<le> count b) \<Longrightarrow> window_budget M W a lo' st \<le> window_budget M W a lo st"
  by (auto simp: window_budget_def split: option.splits)

lemma budget_step:
  assumes "1 \<le> maxRequests rl" "0 \<le> windowMs rl" "lo \<le> now"
    and "\<forall>b. requests rl key = Some b \<longrightarrow> 1 \<le> count b"
  shows "(if fst (isAllowed now key rl) \<and> a \<le> now \<and> now \<le> a + windowMs rl then 1 else 0)
           + window_budget (maxRequests rl) (windowMs rl) a now (requests (snd (isAllowed now key rl)) key)
         \<le> window_budget (maxRequests rl) (windowMs rl) a lo (requests rl key)"
   and "\<forall>b. requests (snd (isAllowed now key rl)) key = Some b \<longrightarrow> 1 \<le> count b"
  using assms by (auto simp: isAllowed_def Let_def window_budget_def split: option.splits)

lemma allowed_in_window_budget:
  assumes "sorted (map fst calls)" "\<forall>c \<in> set calls. lo \<le> fst c"
    and "1 \<le> maxRequests rl" "0 \<le> windowMs rl"
    and "\<forall>b. requests rl key = Some b \<longrightarrow> 1 \<le> count b"
  shows "int (allowed_in_window rl calls key a)
           \<le> window_budget (maxRequests rl) (windowMs rl) a lo (requests rl key)"
  using assms
proof (induction calls arbitrary: rl lo)
  case Nil
  then show ?case
    by (auto simp: allowed_in_window_def window_budget_def split: option.splits)
next
  case (Cons c calls)
  obtain now k where c: "c = (now, k)" by (cases c)
  let ?rl = "snd (isAllowed now k rl)"
  from Cons.prems c have lo: "lo \<le> now" and later: "\<forall>c \<in> set calls. now \<le> fst c"
    and srt: "sorted (map fst calls)" by auto
  have frame: "maxRequests ?rl = maxRequests rl" "windowMs ?rl = windowMs rl"
    by (simp_all add: isAllowed_frame)
  show ?case
  proof (cases "k = key")
    case True
    have inv: "\<forall>b. requests ?rl key = Some b \<longrightarrow> 1 \<le> count b"
      using budget_step(2)[OF Cons.prems(3,4) lo Cons.prems(5)] True by simp
    have "int (allowed_in_window ?rl calls key a)
            \<le> window_budget (maxRequests rl) (windowMs rl) a now (requests ?rl key)"
      using Cons.IH[OF srt later, of ?rl] Cons.prems(3,4) inv by (simp add: frame)
    moreover note budget_step(1)[OF Cons.prems(3,4) lo Cons.prems(5), of a] 
    ultimately show ?thesis
      unfolding c allowed_in_window_Cons using True by (auto split: if_splits)
  next
    case False
    then have same: "requests ?rl key = requests rl key"
      by (simp add: isAllowed_frame)
    have "int (allowed_in_window ?rl calls key a)
            \<le> window_budget (maxRequests rl) (windowMs rl) a now (requests rl key)"
      using Cons.IH[OF srt later, of ?rl] Cons.prems(3,4,5) by (simp add: frame same)
    also have "\<dots> \<le> window_budget (maxRequests rl) (windowMs rl) a lo (requests rl key)"
      using lo Cons.prems(3,5) by (intro window_budget_mono) auto
    finally show ?thesis
      unfolding c allowed_in_window_Cons using False by simp
  qed
qed

lemma window_budget_le:
  "1 \<le> M \<Longrightarrow> \<forall>b. st = Some b \<longrightarrow> 1 \<le> count b \<Longrightarrow> window_budget M W a lo st \<le> 2 * M - 1"
  by (auto simp: window_budget_def split: option.splits)

lemma isAllowed_local:
  assumes "requests rl key = requests rl' key" "maxRequests rl = maxRequests rl'"
    "windowMs rl = windowMs rl'"
  shows "fst (isAllowed now key rl) = fst (isAllowed now key rl')"
    and "requests (snd (isAllowed now key rl)) key = requests (snd (isAllowed now key rl')) key"
  using assms by (auto simp: isAllowed_def Let_def split: option.splits)

text \<open>
  Claim C6, as amended. For calls made at non-decreasing times on a limiter with
  \<open>maxRequests \<ge> 1\<close> and \<open>windowMs \<ge> 0\<close> whose bucket for the key, if any, has a count of
  at least one (every bucket \<open>isAllowed\<close> writes has): within any time window
  \<open>[a, a + windowMs]\<close>, \<open>isAllowed key\<close> returns true at most \<open>2 * maxRequests - 1\<close> times.
  A call for another key leaves the key's bucket as it is and does not change the outcome
  of the key's next call.
\<close>

theorem isAllowed_sliding_window:
  "(sorted (map fst calls) \<and> 1 \<le> maxRequests rl \<and> 0 \<le> windowMs rl
      \<and> (\<forall>b. requests rl key = Some b \<longrightarrow> 1 \<le> count b)
      \<longrightarrow> int (allowed_in_window rl calls key a) \<le> 2 * maxRequests rl - 1)
   \<and> (other \<noteq> key \<longrightarrow>
        requests (snd (isAllowed now other rl)) key = requests rl key
        \<and> fst (isAllowed now' key (snd (isAllowed now other rl))) = fst (isAllowed now' key rl))"
proof -
  have "int (allowed_in_window rl calls key a) \<le> 2 * maxRequests rl - 1"
    if h: "sorted (map fst calls)" "1 \<le> maxRequests rl" "0 \<le> windowMs rl"
      "\<forall>b. requests rl key = Some b \<longrightarrow> 1 \<le> count b"
  proof (cases calls)
    case Nil
    with h show ?thesis by (simp add: allowed_in_window_def)
  next
    case (Cons c cs)
    with h(1) have "\<forall>d \<in> set calls. fst c \<le> fst d" by auto
    from allowed_in_window_budget[OF h(1) this h(2,3,4), of a]
      window_budget_le[OF h(2,4)]
    show ?thesis by (rule order_trans)
  qed
  moreover have "requests (snd (isAllowed now other rl)) key = requests rl key
        \<and> fst (isAllowed now' key (snd (isAllowed now other rl))) = fst (isAllowed now' key rl)"
    if "other \<noteq> key"
    using that isAllowed_local(1)[of "snd (isAllowed now other rl)" key rl now']
    by (simp add: isAllowed_frame)
  ultimately show ?thesis by blast
qed

text \<open>
  Claim C6 as the specification words it fails. With \<open>windowMs = 10\<close> and
  \<open>maxRequests = 2\<close>, calls at the times 0, 9, 11 and 12 are all allowed (the bucket opened
  at 0 expires after 10), and three of them fall into the window from 5 to 15.
\<close>

theorem isAllowed_sliding_window_counterexample:
  "sorted (map fst burst)
   \<and> maxRequests (new_RateLimiter (Some 10) (Some 2)) = 2
   \<and> windowMs (new_RateLimiter (Some 10) (Some 2)) = 10
   \<and> run_calls (new_RateLimiter (Some 10) (Some 2)) burst = [True, True, True, True]
   \<and> allowed_in_window (new_RateLimiter (Some 10) (Some 2)) burst ''ip'' 5 = 3
   \<and> int (allowed_in_window (new_RateLimiter (Some 10) (Some 2)) burst ''ip'' 5)
        > maxRequests (new_RateLimiter (Some 10) (Some 2))"
  by (simp add: burst_def new_RateLimiter_def or_default_def allowed_in_window_def isAllowed_def)

text \<open>
  The amended claim C6 on the same run, taken after its first call: the limiter then holds
  a bucket for the key, with count 1.
\<close>

theorem isAllowed_sliding_window_witness:
  "requests (snd (isAllowed 0 ''ip'' (new_RateLimiter (Some 10) (Some 2)))) ''ip''
     = Some \<lparr>count = 1, resetTime = 10\<rparr>
   \<and> allowed_in_window (snd (isAllowed 0 ''ip'' (new_RateLimiter (Some 10) (Some 2))))
        (tl burst) ''ip'' 5 = 3
   \<and> int (allowed_in_window (snd (isAllowed 0 ''ip'' (new_RateLimiter (Some 10) (Some 2))))
        (tl burst) ''ip'' 5)
        \<le> 2 * maxRequests (snd (isAllowed 0 ''ip'' (new_RateLimiter (Some 10) (Some 2)))) - 1
   \<and> requests (snd (isAllowed 7 ''other''
          (snd (isAllowed 0 ''ip'' (new_RateLimiter (Some 10) (Some 2)))))) ''ip''
     = Some \<lparr>count = 1, resetTime = 10\<rparr>
   \<and> fst (isAllowed 8 ''ip'' (snd (isAllowed 7 ''other''
          (snd (isAllowed 0 ''ip'' (new_RateLimiter (Some 10) (Some 2)))))))"
  using isAllowed_sliding_window[of "tl burst"
      "snd (isAllowed 0 ''ip'' (new_RateLimiter (Some 10) (Some 2)))" "''ip''" 5 "''other''" 7 8]
  by (simp add: burst_def new_RateLimiter_def or_default_def allowed_in_window_def isAllowed_def)

section \<open>Properties of the Room Registry\<close>

subsection \<open>The Maps of a room\<close>

lemma entry_keys_Nil: "entry_keys [] = {}"
  by (simp add: entry_keys_def)

lemma entry_keys_update: "entry_keys (AList.update k v al) = insert k (entry_keys al)"
  by (simp add: entry_keys_def dom_update)

lemma entry_keys_delete: "entry_keys (AList.delete k al) = entry_keys al - {k}"
  by (auto simp: entry_keys_def AList.delete_eq)

lemma entry_keys_map_of: "(map_of al k \<noteq> None) = (k \<in> entry_keys al)"
  by (simp add: entry_keys_def map_of_eq_None_iff)

lemma entries_wf_update:
  "entries_wf al \<Longrightarrow> socket_id (psocket p) = k \<Longrightarrow> entries_wf (AList.update k p al)"
  unfolding entries_wf_def
  by (induction al) (auto simp: distinct_update dom_update  image_iff)

lemma entries_wf_delete: "entries_wf al \<Longrightarrow> entries_wf (AList.delete k al)"
  unfolding entries_wf_def by (auto simp: AList.delete_eq distinct_map_filter)

lemma entries_wf_Nil: "entries_wf []"
  by (simp add: entries_wf_def)

lemma entries_wf_map_of:
  "entries_wf al \<Longrightarrow> map_of al k = Some p \<Longrightarrow> socket_id (psocket p) = k"
  unfolding entries_wf_def by (auto dest: map_of_SomeD)

lemma entries_wf_move:
  "entries_wf pend \<Longrightarrow> map_of pend k = Some p \<Longrightarrow> entries_wf appr
     \<Longrightarrow> entries_wf (AList.update k p appr)"
  by (rule entries_wf_update) (auto dest: entries_wf_map_of)

subsection \<open>The notification loops\<close>

lemma notify_host_disconnected_frame:
  "rooms (notify_host_disconnected ps s) = rooms s"
  "connected (notify_host_disconnected ps s) = connected s"
  "trace (notify_host_disconnected ps s)
     = trace s @ map (\<lambda>(pid, p). Emit (psocket p) HostDisconnected) ps"
  "socketToRoom (notify_host_disconnected ps s) k
     = (if k \<in> entry_keys ps then None else socketToRoom s k)"
  by (induction ps s rule: notify_host_disconnected.induct)
     (auto simp: emit_def entry_keys_def)

lemma notify_host_reconnected_eq:
  "notify_host_reconnected hid ps s
     = s\<lparr>trace := trace s @ map (\<lambda>(pid, p). Emit (psocket p) (HostReconnected hid)) ps\<rparr>"
  by (induction hid ps s rule: notify_host_reconnected.induct) (auto simp: emit_def)

subsection \<open>Every operation keeps the rooms well-formed\<close>

lemma registry_wfI: "(\<And>c room. rooms s c = Some room \<Longrightarrow> room_wf room) \<Longrightarrow> registry_wf s"
  by (simp add: registry_wf_def)

lemma registry_wfD: "rooms s c = Some room \<Longrightarrow> registry_wf s \<Longrightarrow> room_wf room"
  by (simp add: registry_wf_def)

lemma room_wf_simps:
  "room_wf \<lparr>code = c, hostSocket = h, hostId = i, pendingPeers = [], approvedPeers = [],
            createdAt = t\<rparr>"
  "room_wf room \<Longrightarrow> socket_id (psocket p) = k
     \<Longrightarrow> room_wf (room\<lparr>pendingPeers := AList.update k p (pendingPeers room)\<rparr>)"
  "room_wf room \<Longrightarrow> map_of (pendingPeers room) k = Some p
     \<Longrightarrow> room_wf (room\<lparr>pendingPeers := AList.delete k (pendingPeers room),
                        approvedPeers := AList.update k p (approvedPeers room)\<rparr>)"
  "room_wf room \<Longrightarrow> room_wf (room\<lparr>pendingPeers := AList.delete k (pendingPeers room)\<rparr>)"
  "room_wf room \<Longrightarrow> room_wf (room\<lparr>pendingPeers := AList.delete k (pendingPeers room),
                        approvedPeers := AList.delete k (approvedPeers room)\<rparr>)"
  "room_wf room \<Longrightarrow> room_wf (room\<lparr>hostSocket := h, hostId := i\<rparr>)"
  by (auto simp: room_wf_def entries_wf_Nil entries_wf_update entries_wf_delete
           intro: entries_wf_move)

lemma exec_wf:
  assumes "registry_wf s" "exec op s = Some s'"
  shows "registry_wf s'"
proof (rule registry_wfI)
  fix c room'
  assume r: "rooms s' c = Some room'"
  show "room_wf room'"
  proof (cases op)
    case (CreateRoom socket now draws)
    with assms r show ?thesis
      by (auto simp: createRoom_def Let_def
               split: option.splits if_splits intro!: room_wf_simps intro: registry_wfD)
  next
    case (JoinRoom socket jc name)
    with assms r show ?thesis
      by (auto simp: joinRoom_def Let_def
               split: option.splits if_splits intro!: room_wf_simps intro: registry_wfD)
  next
    case (ApprovePeer socket pid approved)
    with assms r show ?thesis
      by (auto simp: approvePeer_def Let_def
               split: option.splits if_splits intro!: room_wf_simps intro: registry_wfD)
  next
    case (Signal socket toId pl)
    with assms r show ?thesis
      by (auto simp: signal_def Let_def emit_def
               split: option.splits if_splits intro!: room_wf_simps intro: registry_wfD)
  next
    case (RejoinRoom socket jc asHost name)
    with assms r show ?thesis
      by (auto simp: rejoinRoom_def joinRoom_def Let_def
                     notify_host_reconnected_eq
               split: option.splits if_splits intro!: room_wf_simps intro: registry_wfD)
  next
    case (HandleDisconnect socket)
    with assms r show ?thesis
      by (auto simp: handleDisconnect_def Let_def emit_def
                     notify_host_disconnected_frame
               split: option.splits if_splits intro!: room_wf_simps intro: registry_wfD)
  next
    case (Transport cid live)
    with assms r show ?thesis
      by (auto intro!: room_wf_simps intro: registry_wfD)
  qed
qed

lemma run_ops_wf: "registry_wf s \<Longrightarrow> run_ops ops s = Some s' \<Longrightarrow> registry_wf s'"
  by (induction ops arbitrary: s) (auto split: option.splits dest: exec_wf)

lemma init_registry_wf: "registry_wf init_registry"
  by (simp add: registry_wf_def init_registry_def)

subsection \<open>Membership disjointness\<close>

lemma room_disjoint_simps:
  "room_disjoint \<lparr>code = c, hostSocket = h, hostId = i, pendingPeers = [], approvedPeers = [],
            createdAt = t\<rparr>"
  "room_disjoint room \<Longrightarrow> k \<noteq> hostId room \<Longrightarrow> k \<notin> entry_keys (approvedPeers room)
     \<Longrightarrow> room_disjoint (room\<lparr>pendingPeers := AList.update k p (pendingPeers room)\<rparr>)"
  "room_disjoint room \<Longrightarrow> map_of (pendingPeers room) k = Some p
     \<Longrightarrow> room_disjoint (room\<lparr>pendingPeers := AList.delete k (pendingPeers room),
                        approvedPeers := AList.update k p (approvedPeers room)\<rparr>)"
  "room_disjoint room \<Longrightarrow> room_disjoint (room\<lparr>pendingPeers := AList.delete k (pendingPeers room)\<rparr>)"
  "room_disjoint room \<Longrightarrow> room_disjoint (room\<lparr>pendingPeers := AList.delete k (pendingPeers room),
                        approvedPeers := AList.delete k (approvedPeers room)\<rparr>)"
  "room_disjoint room \<Longrightarrow> i \<notin> entry_keys (pendingPeers room)
     \<Longrightarrow> i \<notin> entry_keys (approvedPeers room)
     \<Longrightarrow> room_disjoint (room\<lparr>hostSocket := h, hostId := i\<rparr>)"
  using entry_keys_map_of[of "pendingPeers room" k]
  by (auto simp: room_disjoint_def entry_keys_update entry_keys_delete entry_keys_Nil)

lemma registry_disjointI:
  "(\<And>c room. rooms s c = Some room \<Longrightarrow> room_disjoint room) \<Longrightarrow> registry_disjoint s"
  by (simp add: registry_disjoint_def)

lemma registry_disjointD:
  "rooms s c = Some room \<Longrightarrow> registry_disjoint s \<Longrightarrow> room_disjoint room"
  by (simp add: registry_disjoint_def)

lemma exec_disjoint:
  assumes "registry_disjoint s" "admissible op s" "exec op s = Some s'"
  shows "registry_disjoint s'"
proof (rule registry_disjointI)
  fix c room'
  assume r: "rooms s' c = Some room'"
  show "room_disjoint room'"
  proof (cases op)
    case (CreateRoom socket now draws)
    with assms r show ?thesis
      by (auto simp: createRoom_def Let_def
               split: option.splits if_splits intro!: room_disjoint_simps intro: registry_disjointD)
  next
    case (JoinRoom socket jc name)
    with assms r show ?thesis
      by (auto simp: joinRoom_def Let_def
               split: option.splits if_splits intro!: room_disjoint_simps intro: registry_disjointD)
  next
    case (ApprovePeer socket pid approved)
    with assms r show ?thesis
      by (auto simp: approvePeer_def Let_def
               split: option.splits if_splits intro!: room_disjoint_simps intro: registry_disjointD)
  next
    case (Signal socket toId pl)
    with assms r show ?thesis
      by (auto simp: signal_def Let_def emit_def
               split: option.splits if_splits intro: registry_disjointD)
  next
    case (RejoinRoom socket jc asHost name)
    with assms r show ?thesis
      by (auto simp: rejoinRoom_def joinRoom_def Let_def notify_host_reconnected_eq
               split: option.splits if_splits intro!: room_disjoint_simps intro: registry_disjointD)
  next
    case (HandleDisconnect socket)
    with assms r show ?thesis
      by (auto simp: handleDisconnect_def Let_def emit_def notify_host_disconnected_frame
               split: option.splits if_splits intro!: room_disjoint_simps intro: registry_disjointD)
  next
    case (Transport cid live)
    with assms r show ?thesis
      by (auto intro: registry_disjointD)
  qed
qed

lemma run_ops_disjoint:
  "registry_disjoint s \<Longrightarrow> admissible_run ops s \<Longrightarrow> run_ops ops s = Some s'
     \<Longrightarrow> registry_disjoint s'"
proof (induction ops arbitrary: s)
  case Nil
  then show ?case by simp
next
  case (Cons op ops)
  from Cons.prems obtain s1 where s1: "exec op s = Some s1" "run_ops ops s1 = Some s'"
    by (auto split: option.splits)
  with Cons.prems have "registry_disjoint s1" "admissible_run ops s1"
    by (auto intro: exec_disjoint)
  with s1 show ?case by (intro Cons.IH)
qed

text \<open>
  Claim C2, as amended. In every state reached from the empty registry by a sequence of
  registry operations in which no connection calls \<open>joinRoom\<close> (or \<open>rejoinRoom\<close> as a peer)
  on a room whose host or approved peer it is at that moment, and no connection calls
  \<open>rejoinRoom\<close> as host on a room in which it is pending or approved, every room has
  disjoint pending and approved key sets and its host id is a key of neither.
\<close>

theorem membership_disjoint:
  "admissible_run ops init_registry \<Longrightarrow> run_ops ops init_registry = Some s
     \<Longrightarrow> rooms s c = Some room \<Longrightarrow> room_disjoint room"
  using run_ops_disjoint[of init_registry ops s]
  by (auto simp: registry_disjoint_def init_registry_def)

lemmas op_defs = createRoom_def joinRoom_def approvePeer_def signal_def rejoinRoom_def
  handleDisconnect_def emit_def init_registry_def Let_def host1_def host2_def peer1_def peer2_def

text \<open>
  Claim C2 as the specification words it fails. A host creates a room, a peer joins and is
  approved, then the peer joins again and the host joins its own room: the peer is pending
  and approved at once, and the host id is a pending key.
\<close>

theorem membership_disjoint_counterexample:
  "map_option (\<lambda>room. (hostId room, map fst (pendingPeers room), map fst (approvedPeers room)))
     (room_after rejoining_members ''abc-def-ghj'')
   = Some (''host-1'', [''peer-1'', ''host-1''], [''peer-1''])
   \<and> map_option room_disjoint (room_after rejoining_members ''abc-def-ghj'') = Some False"
  by (simp add: room_after_def rejoining_members_def op_defs room_disjoint_def entry_keys_def)

text \<open>
  The amended claim C2 on the happy path: one approved peer, one pending peer.
\<close>

theorem membership_disjoint_witness:
  "admissible_run happy_path init_registry
   \<and> map_option (\<lambda>room. (hostId room, map fst (pendingPeers room), map fst (approvedPeers room)))
       (room_after happy_path ''abc-def-ghj'')
     = Some (''host-1'', [''peer-2''], [''peer-1''])
   \<and> map_option room_disjoint (room_after happy_path ''abc-def-ghj'') = Some True"
proof -
  have adm: "admissible_run happy_path init_registry"
    by (simp add: happy_path_def op_defs entry_keys_def)
  obtain s where s: "run_ops happy_path init_registry = Some s"
    by (simp add: happy_path_def op_defs)
  have val: "map_option (\<lambda>room. (hostId room, map fst (pendingPeers room), map fst (approvedPeers room)))
       (room_after happy_path ''abc-def-ghj'')
     = Some (''host-1'', [''peer-2''], [''peer-1''])"
    by (simp add: room_after_def happy_path_def op_defs)
  then obtain room where room: "rooms s ''abc-def-ghj'' = Some room"
    using s by (auto simp: room_after_def)
  from membership_disjoint[OF adm s room] have "room_disjoint room" .
  with adm val s room show ?thesis by (simp add: room_after_def)
qed

subsection \<open>Signal routing\<close>

lemma new_effects_same: "new_effects s s = []"
  by (simp add: new_effects_def)

lemma new_effects_emit: "new_effects s (emit sock ev s) = [Emit sock ev]"
  by (simp add: new_effects_def emit_def)

text \<open>
  Claim C1. For every registry state and every call of \<open>signal\<close> whose sender's index
  entry points to a room: towards a target that \<open>signal\<close> accepts (\<open>toId\<close> is the host id
  or a key of the approved Map) the signal is emitted if and only if the sender is the
  room's host id or a key of its approved Map; whatever the target, nothing is emitted
  unless the sender is so authorised, and a sender that is not gets "Not authorized to
  signal" with the state untouched. The target of the emit is the host socket when
  \<open>toId\<close> is the host id and the approved peer's socket when \<open>toId\<close> is an approved key,
  and nobody else: for every other \<open>toId\<close>, a key that is only in the pending Map
  included, an authorised sender gets "Target not found" and nothing is emitted. A sender
  whose index entry points to no room gets an error and nothing is emitted.
\<close>

theorem signal_authorization:
  "(room_of s (socket_id fromSocket) = None \<longrightarrow>
      snd (signal fromSocket toId pl s) = s
      \<and> fst (signal fromSocket toId pl s)
          \<in> {Error ''Not in a room'', Error ''Room not found''})
   \<and> (room_of s (socket_id fromSocket) = Some room \<longrightarrow>
        (is_host_or_approved room toId \<longrightarrow>
           (new_effects s (snd (signal fromSocket toId pl s)) \<noteq> [])
             = is_host_or_approved room (socket_id fromSocket))
        \<and> (new_effects s (snd (signal fromSocket toId pl s)) \<noteq> [] \<longrightarrow>
              is_host_or_approved room (socket_id fromSocket) \<and> is_host_or_approved room toId)
        \<and> (\<not> is_host_or_approved room (socket_id fromSocket) \<longrightarrow>
              signal fromSocket toId pl s = (Error ''Not authorized to signal'', s))
        \<and> (is_host_or_approved room (socket_id fromSocket) \<and> toId = hostId room \<longrightarrow>
              signal fromSocket toId pl s
                = (Success, emit (hostSocket room) (SignalEvent (socket_id fromSocket) pl) s))
        \<and> (\<forall>p. is_host_or_approved room (socket_id fromSocket) \<and> toId \<noteq> hostId room
              \<and> map_of (approvedPeers room) toId = Some p \<longrightarrow>
              signal fromSocket toId pl s
                = (Success, emit (psocket p) (SignalEvent (socket_id fromSocket) pl) s))
        \<and> (is_host_or_approved room (socket_id fromSocket) \<and> toId \<noteq> hostId room
              \<and> toId \<notin> entry_keys (approvedPeers room) \<longrightarrow>
              signal fromSocket toId pl s = (Error ''Target not found'', s)
              \<and> new_effects s (snd (signal fromSocket toId pl s)) = []))"
  using entry_keys_map_of[of "approvedPeers room" toId]
        entry_keys_map_of[of "approvedPeers room" "socket_id fromSocket"]
  by (auto simp: room_of_def signal_def Let_def is_host_or_approved_def
                 new_effects_same new_effects_emit
           split: option.splits)

subsection \<open>Counting notifications\<close>

lemma entries_wf_mem:
  assumes "entries_wf al" "(pid, p) \<in> set al"
  shows "socket_id (psocket p) = pid" and "pid \<in> entry_keys al"
proof -
  from assms show "socket_id (psocket p) = pid"
    unfolding entries_wf_def by blast
  from assms(2) have "fst (pid, p) \<in> fst ` set al" by (rule imageI)
  then show "pid \<in> entry_keys al" by (simp add: entry_keys_def)
qed

lemma notice_count_none:
  "entries_wf al \<Longrightarrow> socket_id sock \<notin> entry_keys al
     \<Longrightarrow> count_list (map (notice ev) al) (Emit sock ev') = 0"
  by (induction al) (auto simp: entries_wf_def entry_keys_def notice_def)

lemma notice_count_one:
  "entries_wf al \<Longrightarrow> (pid, p) \<in> set al
     \<Longrightarrow> count_list (map (notice ev) al) (Emit (psocket p) ev) = 1"
proof (induction al)
  case Nil
  then show ?case by simp
next
  case (Cons e al)
  obtain k q where e: "e = (k, q)" by (cases e)
  from Cons.prems(1) have wf: "entries_wf al" and k: "k \<notin> entry_keys al"
    and kq: "socket_id (psocket q) = k"
    by (auto simp: entries_wf_def entry_keys_def e)
  show ?case
  proof (cases "(pid, p) \<in> set al")
    case True
    have "socket_id (psocket p) = pid" "pid \<in> entry_keys al"
      using entries_wf_mem[OF wf True] by simp_all
    with k kq have "psocket q \<noteq> psocket p" by auto
    with Cons.IH[OF wf True] show ?thesis by (simp add: e notice_def)
  next
    case False
    with Cons.prems(2) have same: "k = pid" "q = p" by (auto simp: e)
    with k kq have "count_list (map (notice ev) al) (Emit (psocket p) ev) = 0"
      by (intro notice_count_none[OF wf]) simp
    with same show ?thesis by (simp add: e notice_def)
  qed
qed

lemma notify_host_reconnected_trace:
  "notify_host_reconnected hid ps s
     = s\<lparr>trace := trace s @ map (notice (HostReconnected hid)) ps\<rparr>"
  by (simp add: notify_host_reconnected_eq notice_def)

lemma notify_host_disconnected_trace:
  "trace (notify_host_disconnected ps s) = trace s @ map (notice HostDisconnected) ps"
  by (simp add: notify_host_disconnected_frame notice_def)

lemma reachable_room_wf:
  "run_ops ops init_registry = Some s \<Longrightarrow> rooms s c = Some room \<Longrightarrow> room_wf room"
  using run_ops_wf[OF init_registry_wf] by (auto simp: registry_wf_def)

lemma rejoinRoom_host:
  assumes "rooms s c = Some room"
  shows "rejoinRoom socket c True name s
     = (Rejoined c (map (\<lambda>(pid, p). (pid, pname p)) (approvedPeers room)),
        s\<lparr>rooms := (rooms s)(c \<mapsto> room\<lparr>hostSocket := socket, hostId := socket_id socket\<rparr>),
          socketToRoom := (socketToRoom s)(socket_id socket \<mapsto>
             \<lparr>info_code = c, isHost = True, peerId = None\<rparr>),
          trace := trace s @ Join socket c
                     # map (notice (HostReconnected (socket_id socket))) (approvedPeers room)\<rparr>)"
  using assms by (simp add: rejoinRoom_def Let_def notify_host_reconnected_trace)

text \<open>
  Claim C7, as amended. In every reachable state and for every room of it, \<open>rejoinRoom\<close>
  as host returns success with the ids and names of the approved peers, replaces
  \<open>hostSocket\<close> and \<open>hostId\<close> of that room and nothing else of it (the approved Map stays
  as it is), leaves the other rooms alone, emits \<open>host:reconnected\<close> with the new host id
  exactly once to each approved peer, nothing to a peer that is pending without being
  approved as well, and no other event to anybody.
\<close>

theorem host_rejoin_preserves_peers:
  assumes "run_ops ops init_registry = Some s" and "rooms s c = Some room"
  shows "fst (rejoinRoom socket c True name s)
           = Rejoined c (map (\<lambda>(pid, p). (pid, pname p)) (approvedPeers room))
     \<and> rooms (snd (rejoinRoom socket c True name s)) c
           = Some (room\<lparr>hostSocket := socket, hostId := socket_id socket\<rparr>)
     \<and> (\<forall>c'. c' \<noteq> c \<longrightarrow> rooms (snd (rejoinRoom socket c True name s)) c' = rooms s c')
     \<and> (\<forall>(pid, p) \<in> set (approvedPeers room).
           count_list (new_effects s (snd (rejoinRoom socket c True name s)))
                      (Emit (psocket p) (HostReconnected (socket_id socket))) = 1)
     \<and> (\<forall>(pid, p) \<in> set (pendingPeers room). pid \<notin> entry_keys (approvedPeers room) \<longrightarrow>
           (\<forall>ev. count_list (new_effects s (snd (rejoinRoom socket c True name s)))
                             (Emit (psocket p) ev) = 0))
     \<and> (\<forall>sock ev. Emit sock ev \<in> set (new_effects s (snd (rejoinRoom socket c True name s))) \<longrightarrow>
           ev = HostReconnected (socket_id socket)
           \<and> socket_id sock \<in> entry_keys (approvedPeers room))"
proof -
  from reachable_room_wf[OF assms] have wf: "entries_wf (pendingPeers room)"
    "entries_wf (approvedPeers room)" by (simp_all add: room_wf_def)
  let ?s' = "snd (rejoinRoom socket c True name s)"
  have eff: "new_effects s ?s'
      = Join socket c # map (notice (HostReconnected (socket_id socket))) (approvedPeers room)"
    by (simp add: rejoinRoom_host[OF assms(2)] new_effects_def)
  have one: "count_list (new_effects s ?s') (Emit (psocket p) (HostReconnected (socket_id socket))) = 1"
    if "(pid, p) \<in> set (approvedPeers room)" for pid p
    using notice_count_one[OF wf(2) that] by (simp add: eff)
  have none: "count_list (new_effects s ?s') (Emit (psocket p) ev) = 0"
    if "(pid, p) \<in> set (pendingPeers room)" "pid \<notin> entry_keys (approvedPeers room)" for pid p ev
  proof -
    from wf(1) that(1) have "socket_id (psocket p) = pid"
      by (rule entries_wf_mem)
    with that(2) show ?thesis
      using notice_count_none[OF wf(2), of "psocket p"] by (simp add: eff)
  qed
  have only: "ev = HostReconnected (socket_id socket) \<and> socket_id sock \<in> entry_keys (approvedPeers room)"
    if "Emit sock ev \<in> set (new_effects s ?s')" for sock ev
    using that entries_wf_mem[OF wf(2)] by (auto simp: eff notice_def)
  show ?thesis
    using one none only by (auto simp: rejoinRoom_host[OF assms(2)])
qed

text \<open>
  Claim C8. In every reachable state, when a connection whose index entry says host of an
  existing room denies a peer that is in the room's pending Map: the reply is
  \<^verbatim>\<open>{ success, denied }\<close>, the peer leaves the pending Map and the approved Map is as
  before, \<open>peer:denied\<close> is emitted to the peer's socket, which then leaves the room
  channel, the peer's index entry is gone, and a \<open>signal\<close> from the peer in the state
  reached returns "Not in a room" and changes nothing.
\<close>

theorem deny_removes_peer:
  assumes "run_ops ops init_registry = Some s"
    and "socketToRoom s (socket_id hostSock) = Some info" and "isHost info"
    and "rooms s (info_code info) = Some room"
    and "map_of (pendingPeers room) pid = Some pending"
  shows "fst (approvePeer hostSock pid False s) = SuccessDenied
     \<and> rooms (snd (approvePeer hostSock pid False s)) (info_code info)
           = Some (room\<lparr>pendingPeers := AList.delete pid (pendingPeers room)\<rparr>)
     \<and> pid \<notin> entry_keys (AList.delete pid (pendingPeers room))
     \<and> socket_id (psocket pending) = pid
     \<and> new_effects s (snd (approvePeer hostSock pid False s))
           = [Emit (psocket pending) PeerDenied, Leave (psocket pending) (info_code info)]
     \<and> socketToRoom (snd (approvePeer hostSock pid False s)) pid = None
     \<and> (\<forall>sock toId pl. socket_id sock = pid \<longrightarrow>
           signal sock toId pl (snd (approvePeer hostSock pid False s))
             = (Error ''Not in a room'', snd (approvePeer hostSock pid False s)))"
proof -
  from reachable_room_wf[OF assms(1,4)] have "entries_wf (pendingPeers room)"
    by (simp add: room_wf_def)
  then have pid: "socket_id (psocket pending) = pid"
    using assms(5) by (rule entries_wf_map_of)
  have res: "approvePeer hostSock pid False s
      = (SuccessDenied,
         s\<lparr>rooms := (rooms s)(info_code info \<mapsto>
               room\<lparr>pendingPeers := AList.delete pid (pendingPeers room)\<rparr>),
           socketToRoom := (socketToRoom s)(pid := None),
           trace := trace s @ [Emit (psocket pending) PeerDenied,
                               Leave (psocket pending) (info_code info)]\<rparr>)"
    using assms(2-5) by (simp add: approvePeer_def Let_def pid)
  show ?thesis
    unfolding res using pid
    by (simp add: new_effects_def entry_keys_delete signal_def)
qed

text \<open>
  Claim C3, as amended. In every reachable state, when a socket disconnects whose index
  entry says host of an existing room, the room's pending and approved key sets are
  disjoint and the room count of the socket's address is at least one: after the
  disconnect hook the room's code is absent from \<open>rooms\<close>, every peer that was pending or
  approved has received exactly one \<open>host:disconnected\<close> and has no index entry, the
  host's index entry is gone, and the count of the address is one lower (the key deleted
  when it was one), the counts of other addresses unchanged.
\<close>

theorem host_disconnect_destroys_room:
  assumes "run_ops ops init_registry = Some (registry srv)"
    and "socketToRoom (registry srv) (socket_id socket) = Some info" and "isHost info"
    and "rooms (registry srv) (info_code info) = Some room"
    and "\<forall>pid \<in> entry_keys (pendingPeers room). pid \<notin> entry_keys (approvedPeers room)"
    and "roomsPerIp srv (clientIp socket) = Some n" and "1 \<le> n"
  shows "rooms (registry (on_disconnect socket srv)) (info_code info) = None
     \<and> (\<forall>(pid, p) \<in> set (pendingPeers room @ approvedPeers room).
           count_list (new_effects (registry srv) (registry (on_disconnect socket srv)))
                      (Emit (psocket p) HostDisconnected) = 1
           \<and> socketToRoom (registry (on_disconnect socket srv)) pid = None)
     \<and> socketToRoom (registry (on_disconnect socket srv)) (socket_id socket) = None
     \<and> roomsPerIp (on_disconnect socket srv) (clientIp socket)
           = (if n = 1 then None else Some (n - 1))
     \<and> (\<forall>other. other \<noteq> clientIp socket \<longrightarrow>
           roomsPerIp (on_disconnect socket srv) other = roomsPerIp srv other)"
proof -
  let ?s = "registry srv" and ?s' = "registry (on_disconnect socket srv)"
  from reachable_room_wf[OF assms(1,4)] have wf: "entries_wf (pendingPeers room)"
    "entries_wf (approvedPeers room)" by (simp_all add: room_wf_def)
  have reg: "?s' = handleDisconnect socket ?s"
    by (simp add: on_disconnect_def Let_def)
  have eff: "new_effects ?s ?s'
      = map (notice HostDisconnected) (approvedPeers room)
        @ map (notice HostDisconnected) (pendingPeers room)"
    using assms(2-4)
    by (simp add: reg handleDisconnect_def Let_def new_effects_def notify_host_disconnected_trace)
  have gone: "rooms ?s' (info_code info) = None"
    using assms(2-4)
    by (simp add: reg handleDisconnect_def Let_def notify_host_disconnected_frame)
  have index: "socketToRoom ?s' k = None"
    if "k = socket_id socket \<or> k \<in> entry_keys (pendingPeers room)
        \<or> k \<in> entry_keys (approvedPeers room)" for k
    using assms(2-4) that
    by (auto simp: reg handleDisconnect_def Let_def notify_host_disconnected_frame)
  have pend: "count_list (new_effects ?s ?s') (Emit (psocket p) HostDisconnected) = 1
      \<and> socketToRoom ?s' pid = None"
    if mem: "(pid, p) \<in> set (pendingPeers room)" for pid p
  proof -
    from entries_wf_mem[OF wf(1) mem] assms(5)
    have "socket_id (psocket p) \<notin> entry_keys (approvedPeers room)"
      and key: "pid \<in> entry_keys (pendingPeers room)" by auto
    then have "count_list (map (notice HostDisconnected) (approvedPeers room))
                 (Emit (psocket p) HostDisconnected) = 0"
      by (intro notice_count_none[OF wf(2)])
    with notice_count_one[OF wf(1) mem, of HostDisconnected] index[of pid] key
    show ?thesis by (simp add: eff)
  qed
  have appr: "count_list (new_effects ?s ?s') (Emit (psocket p) HostDisconnected) = 1
      \<and> socketToRoom ?s' pid = None"
    if mem: "(pid, p) \<in> set (approvedPeers room)" for pid p
  proof -
    from entries_wf_mem[OF wf(2) mem] assms(5)
    have "socket_id (psocket p) \<notin> entry_keys (pendingPeers room)"
      and key: "pid \<in> entry_keys (approvedPeers room)" by auto
    then have "count_list (map (notice HostDisconnected) (pendingPeers room))
                 (Emit (psocket p) HostDisconnected) = 0"
      by (intro notice_count_none[OF wf(1)])
    with notice_count_one[OF wf(2) mem, of HostDisconnected] index[of pid] key
    show ?thesis by (simp add: eff)
  qed
  have ip: "roomsPerIp (on_disconnect socket srv)
      = (if n = 1 then (roomsPerIp srv)(clientIp socket := None)
         else (roomsPerIp srv)(clientIp socket \<mapsto> n - 1))"
    using assms(2,3,6,7) by (auto simp: on_disconnect_def Let_def getRoomBySocket_def)
  show ?thesis
    using gone pend appr index[of "socket_id socket"] by (auto simp: ip)
qed

text \<open>
  Claim C10. \<open>rejoinRoom\<close> as host installs the new connection as host of the room and
  writes its index entry, and leaves the index entry of any other connection that says
  host of the same code. \<open>handleDisconnect\<close> of such a connection afterwards takes the
  host branch and deletes the room, whatever the \<^verbatim>\<open>connected\<close> flags say.
\<close>

theorem stale_host_entry_destroys_room:
  assumes "rooms s c = Some room"
    and "socketToRoom s (socket_id oldHost) = Some info" and "isHost info"
    and "info_code info = c"
    and "socket_id newHost \<noteq> socket_id oldHost"
  shows "map_option hostId (rooms (snd (rejoinRoom newHost c True name s)) c)
           = Some (socket_id newHost)
     \<and> map_option hostSocket (rooms (snd (rejoinRoom newHost c True name s)) c) = Some newHost
     \<and> socketToRoom (snd (rejoinRoom newHost c True name s)) (socket_id newHost)
           = Some \<lparr>info_code = c, isHost = True, peerId = None\<rparr>
     \<and> socketToRoom (snd (rejoinRoom newHost c True name s)) (socket_id oldHost) = Some info
     \<and> rooms (handleDisconnect oldHost (snd (rejoinRoom newHost c True name s))) c = None
     \<and> connected (handleDisconnect oldHost (snd (rejoinRoom newHost c True name s)))
           = connected s"
  using assms
  by (simp add: rejoinRoom_host handleDisconnect_def Let_def notify_host_disconnected_frame)

text \<open>
  Claim C4, as amended. For a connection that already has an index entry, \<open>createRoom\<close>
  does not fail: as soon as the generator draws a code that is not in use, it creates the
  room and overwrites the index entry with the new code and the host role. \<open>joinRoom\<close> on
  an existing room does not fail either: it answers success, puts the connection into the
  pending Map, overwrites the index entry with the code and the peer role, and notifies
  the host. The source has no ALREADY_IN_ROOM error.
\<close>

theorem no_already_in_room_check:
  assumes "socketToRoom s (socket_id socket) = Some info"
  shows "(\<forall>new. draw_code (rooms s) draws = Some new \<longrightarrow>
           map_option fst (createRoom socket now draws s) = Some (Created new)
           \<and> rooms s new = None
           \<and> map_option (\<lambda>r. rooms (snd r) new) (createRoom socket now draws s)
               = Some (Some \<lparr>code = new, hostSocket = socket, hostId = socket_id socket,
                             pendingPeers = [], approvedPeers = [], createdAt = now\<rparr>)
           \<and> map_option (\<lambda>r. socketToRoom (snd r) (socket_id socket))
                 (createRoom socket now draws s)
               = Some (Some \<lparr>info_code = new, isHost = True, peerId = None\<rparr>))
     \<and> (\<forall>room. rooms s c = Some room \<longrightarrow>
           fst (joinRoom socket c name s)
             = Joined (socket_id socket) (connected s (socket_id (hostSocket room)))
           \<and> map_option (\<lambda>r. socket_id socket \<in> entry_keys (pendingPeers r))
                 (rooms (snd (joinRoom socket c name s)) c) = Some True
           \<and> socketToRoom (snd (joinRoom socket c name s)) (socket_id socket)
               = Some \<lparr>info_code = c, isHost = False, peerId = Some (socket_id socket)\<rparr>
           \<and> new_effects s (snd (joinRoom socket c name s))
               = [Join socket c, Emit (hostSocket room) (PeerRequest (socket_id socket) name)])"
proof -
  have free: "rooms s c = None" if "draw_code (rooms s) draws = Some c" for c
    using that by (induction draws) (auto split: if_splits)
  show ?thesis
    using free
    by (auto simp: createRoom_def joinRoom_def Let_def new_effects_def entry_keys_update)
qed

subsection \<open>The example runs\<close>

lemmas run_defs = after_def happy_path_def pending_only_def double_join_def hosting_def op_defs

lemma happy_path_run: "run_ops happy_path init_registry = Some (after happy_path)"
  by (simp add: run_defs)

lemma happy_path_room: "rooms (after happy_path) ''abc-def-ghj'' = Some alice_room"
  by (simp add: run_defs alice_room_def)

lemma happy_path_index:
  "socketToRoom (after happy_path) ''host-1''
     = Some \<lparr>info_code = ''abc-def-ghj'', isHost = True, peerId = None\<rparr>"
  "socketToRoom (after happy_path) ''peer-1''
     = Some \<lparr>info_code = ''abc-def-ghj'', isHost = False, peerId = Some ''peer-1''\<rparr>"
  by (simp_all add: run_defs)

lemma pending_only_run: "run_ops pending_only init_registry = Some (after pending_only)"
  by (simp add: run_defs)

lemma pending_only_room: "rooms (after pending_only) ''abc-def-ghj'' = Some request_room"
  by (simp add: run_defs request_room_def)

lemma pending_only_index:
  "socketToRoom (after pending_only) ''host-1''
     = Some \<lparr>info_code = ''abc-def-ghj'', isHost = True, peerId = None\<rparr>"
  by (simp add: run_defs)

text \<open>
  Claim C1 on the happy path, where \<open>peer-1\<close> is approved and \<open>peer-2\<close> is pending: the
  approved peer reaches the host, the host reaches the approved peer, the pending peer is
  refused as a sender, and as a target it is not found.
\<close>

theorem signal_authorization_witness:
  "room_of (after happy_path) (socket_id peer1) = Some alice_room
   \<and> is_host_or_approved alice_room (socket_id peer1)
   \<and> signal peer1 ''host-1'' ''answer'' (after happy_path)
       = (Success, emit host1 (SignalEvent ''peer-1'' ''answer'') (after happy_path))
   \<and> signal host1 ''peer-1'' ''offer'' (after happy_path)
       = (Success, emit peer1 (SignalEvent ''host-1'' ''offer'') (after happy_path))
   \<and> signal peer2 ''host-1'' ''answer'' (after happy_path)
       = (Error ''Not authorized to signal'', after happy_path)
   \<and> signal host1 ''peer-2'' ''offer'' (after happy_path)
       = (Error ''Target not found'', after happy_path)
   \<and> new_effects (after happy_path) (snd (signal host1 ''peer-2'' ''offer'' (after happy_path)))
       = []"
proof -
  have room0: "room_of (after happy_path) (socket_id host1) = Some alice_room"
    by (simp add: room_of_def host1_def happy_path_index happy_path_room)
  have room1: "room_of (after happy_path) (socket_id peer1) = Some alice_room"
    by (simp add: room_of_def peer1_def happy_path_index happy_path_room)
  have room2: "room_of (after happy_path) (socket_id peer2) = Some alice_room"
    by (simp add: room_of_def run_defs alice_room_def)
  have auth0: "is_host_or_approved alice_room (socket_id host1)"
    and auth1: "is_host_or_approved alice_room (socket_id peer1)"
    and auth2: "\<not> is_host_or_approved alice_room (socket_id peer2)"
    by (simp_all add: is_host_or_approved_def alice_room_def host1_def peer1_def peer2_def
          entry_keys_def)
  have to_host: "is_host_or_approved alice_room (socket_id peer1) \<and> ''host-1'' = hostId alice_room"
    using auth1 by (simp add: alice_room_def)
  have to_peer: "is_host_or_approved alice_room (socket_id host1) \<and> ''peer-1'' \<noteq> hostId alice_room
      \<and> map_of (approvedPeers alice_room) ''peer-1'' = Some \<lparr>psocket = peer1, pname = ''Alice''\<rparr>"
    using auth0 by (simp add: alice_room_def)
  have to_pending: "is_host_or_approved alice_room (socket_id host1) \<and> ''peer-2'' \<noteq> hostId alice_room
      \<and> ''peer-2'' \<notin> entry_keys (approvedPeers alice_room)"
    using auth0 by (simp add: alice_room_def entry_keys_def)
  note host_case =
    signal_authorization[of "after happy_path" peer1 "''host-1''" "''answer''" alice_room,
      THEN conjunct2, THEN mp, OF room1,
      THEN conjunct2, THEN conjunct2, THEN conjunct2, THEN conjunct1, THEN mp, OF to_host]
  note peer_case =
    signal_authorization[of "after happy_path" host1 "''peer-1''" "''offer''" alice_room,
      THEN conjunct2, THEN mp, OF room0,
      THEN conjunct2, THEN conjunct2, THEN conjunct2, THEN conjunct2, THEN conjunct1,
      THEN spec, THEN mp, OF to_peer]
  note refused =
    signal_authorization[of "after happy_path" peer2 "''host-1''" "''answer''" alice_room,
      THEN conjunct2, THEN mp, OF room2,
      THEN conjunct2, THEN conjunct2, THEN conjunct1, THEN mp, OF auth2]
  note pending_case =
    signal_authorization[of "after happy_path" host1 "''peer-2''" "''offer''" alice_room,
      THEN conjunct2, THEN mp, OF room0,
      THEN conjunct2, THEN conjunct2, THEN conjunct2, THEN conjunct2, THEN conjunct2,
      THEN mp, OF to_pending]
  have a: "signal peer1 ''host-1'' ''answer'' (after happy_path)
       = (Success, emit host1 (SignalEvent ''peer-1'' ''answer'') (after happy_path))"
    unfolding host_case by (simp add: alice_room_def peer1_def)
  have b: "signal host1 ''peer-1'' ''offer'' (after happy_path)
       = (Success, emit peer1 (SignalEvent ''host-1'' ''offer'') (after happy_path))"
    unfolding peer_case by (simp add: host1_def)
  from room1 auth1 a b refused pending_case show ?thesis
    by (intro conjI) (rule refl | assumption | erule conjunct1 | erule conjunct2)+
qed

lemma double_join_run: "run_ops double_join init_registry = Some (after double_join)"
  by (simp add: run_defs)

lemma hosting_index:
  "socketToRoom (after hosting) (socket_id host1)
     = Some \<lparr>info_code = ''abc-def-ghj'', isHost = True, peerId = None\<rparr>"
  by (simp add: run_defs)

text \<open>
  Claim C7 as the specification words it fails. After its approval \<open>peer-1\<close> joins again,
  which \<open>joinRoom\<close> does not refuse: it is a key of the pending Map and of the approved
  Map, and when a second connection takes over as host, this pending peer receives
  \<open>host:reconnected\<close>.
\<close>

theorem host_rejoin_preserves_peers_counterexample:
  "run_ops double_join init_registry = Some (after double_join)
   \<and> map_option (\<lambda>r. (map fst (pendingPeers r), map (psocket \<circ> snd) (pendingPeers r),
                      map fst (approvedPeers r)))
        (rooms (after double_join) ''abc-def-ghj'')
     = Some ([''peer-1''], [peer1], [''peer-1''])
   \<and> count_list (new_effects (after double_join)
                    (snd (rejoinRoom host2 ''abc-def-ghj'' True ''Host'' (after double_join))))
                 (Emit peer1 (HostReconnected ''host-2'')) = 1"
  by (simp add: new_effects_def run_defs)

text \<open>
  The amended claim C7 on the happy path, with a second connection taking over as host:
  the approved \<open>peer-1\<close> is notified once, the pending \<open>peer-2\<close> is not.
\<close>

theorem host_rejoin_preserves_peers_witness:
  "fst (rejoinRoom host2 ''abc-def-ghj'' True ''Host'' (after happy_path))
     = Rejoined ''abc-def-ghj'' [(''peer-1'', ''Alice'')]
   \<and> map_option approvedPeers
        (rooms (snd (rejoinRoom host2 ''abc-def-ghj'' True ''Host'' (after happy_path)))
           ''abc-def-ghj'')
     = Some (approvedPeers alice_room)
   \<and> count_list (new_effects (after happy_path)
                    (snd (rejoinRoom host2 ''abc-def-ghj'' True ''Host'' (after happy_path))))
                 (Emit peer1 (HostReconnected ''host-2'')) = 1
   \<and> count_list (new_effects (after happy_path)
                    (snd (rejoinRoom host2 ''abc-def-ghj'' True ''Host'' (after happy_path))))
                 (Emit peer2 (HostReconnected ''host-2'')) = 0"
  using host_rejoin_preserves_peers[OF happy_path_run happy_path_room, of host2 "''Host''"]
  by (simp add: alice_room_def host2_def entry_keys_def)

text \<open>
  Claim C8 for the pending peer of the room in \<open>pending_only\<close>.
\<close>

theorem deny_removes_peer_witness:
  "fst (approvePeer host1 ''peer-1'' False (after pending_only)) = SuccessDenied
   \<and> map_option (\<lambda>r. (map fst (pendingPeers r), map fst (approvedPeers r)))
        (rooms (snd (approvePeer host1 ''peer-1'' False (after pending_only))) ''abc-def-ghj'')
     = Some ([], [])
   \<and> new_effects (after pending_only) (snd (approvePeer host1 ''peer-1'' False (after pending_only)))
     = [Emit peer1 PeerDenied, Leave peer1 ''abc-def-ghj'']
   \<and> signal peer1 ''host-1'' ''offer'' (snd (approvePeer host1 ''peer-1'' False (after pending_only)))
     = (Error ''Not in a room'', snd (approvePeer host1 ''peer-1'' False (after pending_only)))"
proof -
  have index: "socketToRoom (after pending_only) (socket_id host1)
     = Some \<lparr>info_code = ''abc-def-ghj'', isHost = True, peerId = None\<rparr>"
    by (simp add: host1_def pending_only_index)
  have room: "rooms (after pending_only)
       (info_code \<lparr>info_code = ''abc-def-ghj'', isHost = True, peerId = None\<rparr>)
     = Some request_room"
    by (simp add: pending_only_room)
  have pending: "map_of (pendingPeers request_room) ''peer-1''
     = Some \<lparr>psocket = peer1, pname = ''Alice''\<rparr>"
    by (simp add: request_room_def)
  from deny_removes_peer[OF pending_only_run index _ room pending]
  show ?thesis
    by (simp add: request_room_def peer1_def)
qed

text \<open>
  Claim C3 as the specification words it fails: a peer that joined again after its
  approval is in both Maps, and both loops notify it when the host disconnects.
\<close>

theorem host_disconnect_destroys_room_counterexample:
  "socketToRoom (registry (one_room_server double_join)) (socket_id host1)
     = Some \<lparr>info_code = ''abc-def-ghj'', isHost = True, peerId = None\<rparr>
   \<and> map_option (\<lambda>r. (hostId r, map fst (pendingPeers r), map fst (approvedPeers r)))
        (rooms (registry (one_room_server double_join)) ''abc-def-ghj'')
     = Some (''host-1'', [''peer-1''], [''peer-1''])
   \<and> count_list (new_effects (registry (one_room_server double_join))
                    (registry (on_disconnect host1 (one_room_server double_join))))
                 (Emit peer1 HostDisconnected) = 2"
  by (simp add: one_room_server_def on_disconnect_def new_effects_def run_defs)

text \<open>
  The amended claim C3 on the happy path, the host's address counting one room.
\<close>

theorem host_disconnect_destroys_room_witness:
  "rooms (registry (on_disconnect host1 (one_room_server happy_path))) ''abc-def-ghj'' = None
   \<and> count_list (new_effects (registry (one_room_server happy_path))
                    (registry (on_disconnect host1 (one_room_server happy_path))))
                 (Emit peer1 HostDisconnected) = 1
   \<and> count_list (new_effects (registry (one_room_server happy_path))
                    (registry (on_disconnect host1 (one_room_server happy_path))))
                 (Emit peer2 HostDisconnected) = 1
   \<and> socketToRoom (registry (on_disconnect host1 (one_room_server happy_path))) ''peer-1'' = None
   \<and> socketToRoom (registry (on_disconnect host1 (one_room_server happy_path))) ''peer-2'' = None
   \<and> roomsPerIp (on_disconnect host1 (one_room_server happy_path)) ''10.0.0.1'' = None"
proof -
  let ?srv = "one_room_server happy_path"
  have run: "run_ops happy_path init_registry = Some (registry ?srv)"
    by (simp add: one_room_server_def happy_path_run)
  have index: "socketToRoom (registry ?srv) (socket_id host1)
     = Some \<lparr>info_code = ''abc-def-ghj'', isHost = True, peerId = None\<rparr>"
    by (simp add: one_room_server_def host1_def happy_path_index)
  have room: "rooms (registry ?srv)
       (info_code \<lparr>info_code = ''abc-def-ghj'', isHost = True, peerId = None\<rparr>)
     = Some alice_room"
    by (simp add: one_room_server_def happy_path_room)
  have disjoint: "\<forall>pid \<in> entry_keys (pendingPeers alice_room).
       pid \<notin> entry_keys (approvedPeers alice_room)"
    by (simp add: alice_room_def entry_keys_def)
  have ip: "roomsPerIp ?srv (clientIp host1) = Some 1"
    by (simp add: one_room_server_def host1_def)
  from host_disconnect_destroys_room[OF run index _ room disjoint ip]
  show ?thesis
    by (simp add: alice_room_def host1_def)
qed

text \<open>
  Claim C10 on the happy path: the second host takes over, the first one disconnects, and
  the room is gone while the second host is connected.
\<close>

theorem stale_host_entry_destroys_room_witness:
  "map_option hostId
     (rooms (snd (rejoinRoom host2 ''abc-def-ghj'' True ''Host'' (after happy_path)))
        ''abc-def-ghj'') = Some ''host-2''
   \<and> socketToRoom (snd (rejoinRoom host2 ''abc-def-ghj'' True ''Host'' (after happy_path)))
        ''host-1''
     = Some \<lparr>info_code = ''abc-def-ghj'', isHost = True, peerId = None\<rparr>
   \<and> rooms (handleDisconnect host1
        (snd (rejoinRoom host2 ''abc-def-ghj'' True ''Host'' (after happy_path))))
        ''abc-def-ghj'' = None
   \<and> connected (handleDisconnect host1
        (snd (rejoinRoom host2 ''abc-def-ghj'' True ''Host'' (after happy_path))))
        ''host-2''"
proof -
  have index: "socketToRoom (after happy_path) (socket_id host1)
     = Some \<lparr>info_code = ''abc-def-ghj'', isHost = True, peerId = None\<rparr>"
    by (simp add: host1_def happy_path_index)
  have new: "socket_id host2 \<noteq> socket_id host1"
    by (simp add: host1_def host2_def)
  have live: "connected (after happy_path) ''host-2''"
    by (simp add: run_defs)
  from stale_host_entry_destroys_room[OF happy_path_room index _ _ new, of "''Host''"]
  show ?thesis
    using live by (simp add: host1_def host2_def)
qed

text \<open>
  Claim C4 as the specification words it fails: the host of a room creates a second room
  and joins its own room, both with success and with effects.
\<close>

theorem no_already_in_room_check_counterexample:
  "socketToRoom (after hosting) (socket_id host1)
     = Some \<lparr>info_code = ''abc-def-ghj'', isHost = True, peerId = None\<rparr>
   \<and> map_option fst (createRoom host1 5 [''abc-def-ghj'', ''xyz-xyz-xyz''] (after hosting))
     = Some (Created ''xyz-xyz-xyz'')
   \<and> map_option (\<lambda>r. new_effects (after hosting) (snd r))
        (createRoom host1 5 [''abc-def-ghj'', ''xyz-xyz-xyz''] (after hosting))
     = Some [Join host1 ''xyz-xyz-xyz'']
   \<and> fst (joinRoom host1 ''abc-def-ghj'' ''Host'' (after hosting)) = Joined ''host-1'' True
   \<and> new_effects (after hosting) (snd (joinRoom host1 ''abc-def-ghj'' ''Host'' (after hosting)))
     = [Join host1 ''abc-def-ghj'', Emit host1 (PeerRequest ''host-1'' ''Host'')]"
  by (simp add: new_effects_def createRoom_def run_defs)

text \<open>
  The amended claim C4 for the host of the room in \<open>hosting\<close>.
\<close>

theorem no_already_in_room_check_witness:
  "map_option fst (createRoom host1 5 [''abc-def-ghj'', ''xyz-xyz-xyz''] (after hosting))
     = Some (Created ''xyz-xyz-xyz'')
   \<and> map_option (\<lambda>r. socketToRoom (snd r) ''host-1'')
        (createRoom host1 5 [''abc-def-ghj'', ''xyz-xyz-xyz''] (after hosting))
     = Some (Some \<lparr>info_code = ''xyz-xyz-xyz'', isHost = True, peerId = None\<rparr>)
   \<and> socketToRoom (snd (joinRoom host1 ''abc-def-ghj'' ''Host'' (after hosting))) ''host-1''
     = Some \<lparr>info_code = ''abc-def-ghj'', isHost = False, peerId = Some ''host-1''\<rparr>"
proof -
  have draw: "draw_code (rooms (after hosting)) [''abc-def-ghj'', ''xyz-xyz-xyz'']
      = Some ''xyz-xyz-xyz''"
    by (simp add: run_defs)
  have room: "rooms (after hosting) ''abc-def-ghj''
      = Some \<lparr>code = ''abc-def-ghj'', hostSocket = host1, hostId = ''host-1'',
               pendingPeers = [], approvedPeers = [], createdAt = 0\<rparr>"
    by (simp add: run_defs)
  note check = no_already_in_room_check[OF hosting_index,
      of "[''abc-def-ghj'', ''xyz-xyz-xyz'']" 5 "''abc-def-ghj''" "''Host''"]
  from check[THEN conjunct1, rule_format, OF draw]
    check[THEN conjunct2, rule_format, OF room]
  show ?thesis
    by (simp add: host1_def)
qed

end
